theory Spec2Isabelle
  imports Complex_Main "HOL-Library.Log_Nat"
begin

section \<open>Python values and errors\<close>

text \<open>
  The program is the script \<^verbatim>\<open>HW#2.py\<close>: the class \<^verbatim>\<open>SimpleConvNet\<close> and the training
  loop that drives it.  Python integers are modelled as \<open>int\<close>, dictionaries as maps
  or association lists, and every exception the script's own expressions can raise is a
  value of \<open>py_error\<close>.
\<close>

datatype py_error =
  ZeroDivisionError | KeyError | ValueError | IndexError | AttributeError | OverflowError

text \<open>\<^verbatim>\<open>a // b\<close> on Python integers: floor division, raising on a zero divisor.\<close>

definition py_floordiv :: "int \<Rightarrow> int \<Rightarrow> py_error + int" where
  "py_floordiv a b = (if b = 0 then Inl ZeroDivisionError else Inr (a div b))"

text \<open>\<^verbatim>\<open>d[k]\<close> on a dictionary: raises \<^verbatim>\<open>KeyError\<close> when the key is missing.\<close>

definition py_getitem :: "('k \<rightharpoonup> 'v) \<Rightarrow> 'k \<Rightarrow> py_error + 'v" where
  "py_getitem d k = (case d k of None \<Rightarrow> Inl KeyError | Some v \<Rightarrow> Inr v)"

text \<open>
  Sequencing of two computations that may raise: the second runs only when the first
  returned, as a statement after another does in Python.
\<close>

definition and_then :: "'e + 'a \<Rightarrow> ('a \<Rightarrow> 'e + 'b) \<Rightarrow> 'e + 'b" where
  "and_then m f = (case m of Inl e \<Rightarrow> Inl e | Inr v \<Rightarrow> f v)"

section \<open>Shape derivation in \<^verbatim>\<open>SimpleConvNet.__init__\<close>\<close>

text \<open>
  The default argument \<^verbatim>\<open>conv_param={'filter_num':30, 'filter_size':5, 'pad':0, 'stride':1}\<close>
  and the default \<^verbatim>\<open>input_dim=(1, 28, 28)\<close>.
\<close>

definition default_conv_param :: "string \<rightharpoonup> int" where
  "default_conv_param =
     [''filter_num'' \<mapsto> 30, ''filter_size'' \<mapsto> 5, ''pad'' \<mapsto> 0, ''stride'' \<mapsto> 1]"

definition default_input_dim :: "int \<times> int \<times> int" where
  "default_input_dim = (1, 28, 28)"

text \<open>The local variables computed by lines 28 to 41 of the constructor.\<close>

record dims =
  filter_num :: int
  filter_size :: int
  filter_pad :: int
  filter_stride :: int
  conv_output_height :: int
  conv_output_width :: int
  pool_output_height :: int
  pool_output_width :: int
  pool_output_size :: int

definition pool_height :: int where "pool_height = 2"
definition pool_width :: int where "pool_width = 2"
definition pool_stride :: int where "pool_stride = 2"

definition derive_dims :: "int \<times> int \<times> int \<Rightarrow> (string \<rightharpoonup> int) \<Rightarrow> py_error + dims" where
  "derive_dims input_dim conv_param =
     (case input_dim of (c, h, w) \<Rightarrow>
      and_then (py_getitem conv_param ''filter_num'') (\<lambda>fnum.
      and_then (py_getitem conv_param ''filter_size'') (\<lambda>fsize.
      and_then (py_getitem conv_param ''pad'') (\<lambda>fpad.
      and_then (py_getitem conv_param ''stride'') (\<lambda>fstride.
      and_then (py_floordiv (h - fsize + 2 * fpad) fstride) (\<lambda>qh.
      and_then (py_floordiv (w - fsize + 2 * fpad) fstride) (\<lambda>qw.
      and_then (py_floordiv (qh + 1 - pool_height) pool_stride) (\<lambda>ph.
      and_then (py_floordiv (qw + 1 - pool_width) pool_stride) (\<lambda>pw.
        Inr \<lparr> filter_num = fnum, filter_size = fsize, filter_pad = fpad,
              filter_stride = fstride,
              conv_output_height = qh + 1, conv_output_width = qw + 1,
              pool_output_height = ph + 1, pool_output_width = pw + 1,
              pool_output_size = fnum * (ph + 1) * (pw + 1) \<rparr>)))))))))"

text \<open>
  Lines 44 to 55 allocate the parameters.  \<^verbatim>\<open>np.random.randn(d0, d1, ...)\<close> and
  \<^verbatim>\<open>np.zeros(d)\<close> raise \<^verbatim>\<open>ValueError\<close> on a negative dimension, on a dimension
  that does not fit a signed 64-bit integer, and on a size in bytes (8 for each number,
  the dimensions 0 left out of the product) that does not fit one.  Whether the machine
  has the memory is not modelled: an allocation that passes these checks returns.  The He
  factor \<^verbatim>\<open>2. / n\<close> raises \<^verbatim>\<open>ZeroDivisionError\<close> when \<open>n = 0\<close> (\<^verbatim>\<open>np.sqrt\<close> of a
  negative number is \<^verbatim>\<open>nan\<close> with a warning, not an exception).  The left operand of
  \<^verbatim>\<open>*\<close> is evaluated first.  The result is the shape of each parameter, in allocation
  order.
\<close>

definition np_alloc :: "int list \<Rightarrow> py_error + int list" where
  "np_alloc shape =
     (if list_ex (\<lambda>d. d < 0 \<or> 2 ^ 63 \<le> d) shape
         \<or> 2 ^ 63 \<le> 8 * prod_list (filter (\<lambda>d. d \<noteq> 0) shape)
      then Inl ValueError else Inr shape)"

definition he_scale :: "int \<Rightarrow> py_error + unit" where
  "he_scale n = (if n = 0 then Inl ZeroDivisionError else Inr ())"

definition scaled_randn :: "int list \<Rightarrow> int \<Rightarrow> py_error + int list" where
  "scaled_randn shape n =
     and_then (np_alloc shape) (\<lambda>sh. and_then (he_scale n) (\<lambda>_. Inr sh))"

definition param_shapes ::
  "int \<times> int \<times> int \<Rightarrow> dims \<Rightarrow> int \<Rightarrow> int \<Rightarrow> py_error + (string \<times> int list) list" where
  "param_shapes input_dim d hidden_size output_size =
     (case input_dim of (c, h, w) \<Rightarrow>
      and_then (scaled_randn [filter_num d, c, filter_size d, filter_size d]
                  (c * filter_size d * filter_size d)) (\<lambda>w1.
      and_then (np_alloc [filter_num d]) (\<lambda>b1.
      and_then (scaled_randn [pool_output_size d, hidden_size] (pool_output_size d)) (\<lambda>w2.
      and_then (np_alloc [hidden_size]) (\<lambda>b2.
      and_then (scaled_randn [hidden_size, hidden_size] hidden_size) (\<lambda>w3.
      and_then (np_alloc [hidden_size]) (\<lambda>b3.
      and_then (scaled_randn [hidden_size, output_size] hidden_size) (\<lambda>w4.
      and_then (np_alloc [output_size]) (\<lambda>b4.
        Inr [(''W1'', w1), (''b1'', b1), (''W2'', w2), (''b2'', b2),
             (''W3'', w3), (''b3'', b3), (''W4'', w4), (''b4'', b4)])))))))))"

section \<open>numpy arrays\<close>

text \<open>
  An \<^verbatim>\<open>ndarray\<close> is a number (a zero-dimensional array) or a sequence of arrays along
  its first axis.  The element type \<open>'a\<close> stands for the numbers of the array; the
  rounding of floating-point arithmetic is not modelled.  The arrays of numpy are
  rectangular: all the arrays of a sequence have one shape.  An array without arrays
  along its first axis does not record its other axes: it is taken to be
  one-dimensional, except by the argmax along the axis 1, which takes it to be a matrix
  without rows.
\<close>

datatype 'a ndarray = Num 'a | Arr "'a ndarray list"

fun ndim :: "'a ndarray \<Rightarrow> nat" where
  "ndim (Num v) = 0"
| "ndim (Arr []) = 1"
| "ndim (Arr (r # rs)) = Suc (ndim r)"

text \<open>\<^verbatim>\<open>x.shape[0]\<close>: the shape of a zero-dimensional array is the empty tuple.\<close>

fun shape0 :: "'a ndarray \<Rightarrow> py_error + nat" where
  "shape0 (Num v) = Inl IndexError"
| "shape0 (Arr rs) = Inr (length rs)"

text \<open>\<^verbatim>\<open>x[i:j]\<close> for \<open>0 \<le> i \<le> j\<close>: a slice along the first axis, clipped to the array.\<close>

fun slice0 :: "nat \<Rightarrow> nat \<Rightarrow> 'a ndarray \<Rightarrow> py_error + 'a ndarray" where
  "slice0 i j (Num v) = Inl IndexError"
| "slice0 i j (Arr rs) = Inr (Arr (take (j - i) (drop i rs)))"

text \<open>The numbers of a one-dimensional array, when the array is one.\<close>

fun num_of :: "'a ndarray \<Rightarrow> 'a option" where
  "num_of (Num v) = Some v"
| "num_of (Arr rs) = None"

fun vector_of :: "'a ndarray \<Rightarrow> 'a list option" where
  "vector_of (Num v) = None"
| "vector_of (Arr rs) =
     (if list_all (\<lambda>r. num_of r \<noteq> None) rs then Some (map (\<lambda>r. the (num_of r)) rs)
      else None)"

text \<open>
  \<^verbatim>\<open>np.argmax\<close> of a sequence of numbers: the index of the first occurrence of the
  maximum.
\<close>

fun argmax_from :: "'a::linorder \<Rightarrow> nat \<Rightarrow> nat \<Rightarrow> 'a list \<Rightarrow> nat" where
  "argmax_from best bi i [] = bi"
| "argmax_from best bi i (v # vs) =
     (if best < v then argmax_from v i (Suc i) vs else argmax_from best bi (Suc i) vs)"

fun argmax :: "'a::linorder list \<Rightarrow> py_error + nat" where
  "argmax [] = Inl ValueError"
| "argmax (v # vs) = Inr (argmax_from v 0 1 vs)"

text \<open>
  The arrays along the first axis, and the results of a sequence of computations, which
  are those of all of them unless one raises.
\<close>

fun rows :: "'a ndarray \<Rightarrow> 'a ndarray list" where
  "rows (Num v) = []"
| "rows (Arr rs) = rs"

fun collect :: "('e + 'b) list \<Rightarrow> 'e + 'b list" where
  "collect [] = Inr []"
| "collect (m # ms) = and_then m (\<lambda>v. and_then (collect ms) (\<lambda>vs. Inr (v # vs)))"

text \<open>
  \<^verbatim>\<open>np.argmax\<close> along the first axis of an array, given as the sequence \<open>cols\<close> of
  its arrays along that axis, each of \<open>d\<close> dimensions: for every position in the other
  axes, the index of the first maximum among the numbers that the arrays of \<open>cols\<close> hold
  at this position.  For \<open>d = 0\<close> the arrays are numbers.  Otherwise the row \<open>j\<close> of the
  result is computed from the rows \<open>j\<close> of the arrays of \<open>cols\<close>.  numpy raises
  \<^verbatim>\<open>ValueError\<close> when the axis has length zero, and its \<^verbatim>\<open>AxisError\<close>, a
  \<^verbatim>\<open>ValueError\<close>, when the array has no such axis.
\<close>

fun argmax_cols :: "nat \<Rightarrow> 'a::linordered_idom ndarray list \<Rightarrow> py_error + 'a ndarray" where
  "argmax_cols 0 cols =
     (case vector_of (Arr cols) of None \<Rightarrow> Inl ValueError
      | Some vs \<Rightarrow> and_then (argmax vs) (\<lambda>k. Inr (Num (of_nat k))))"
| "argmax_cols (Suc d) cols =
     and_then (collect (map (argmax_cols d) (transpose (map rows cols))))
       (\<lambda>ks. Inr (Arr ks))"

fun argmax_axis0 :: "'a::linordered_idom ndarray \<Rightarrow> py_error + 'a ndarray" where
  "argmax_axis0 (Num v) = Inl ValueError"
| "argmax_axis0 (Arr []) = Inl ValueError"
| "argmax_axis0 (Arr (c # cs)) = argmax_cols (ndim c) (c # cs)"

text \<open>
  \<^verbatim>\<open>np.argmax(a, axis=1)\<close>: for each array along the first axis of \<open>a\<close>, its argmax
  along its own first axis.  The result has the shape of \<open>a\<close> without the axis 1: one
  index per row when \<open>a\<close> is a matrix.
\<close>

fun argmax_rows :: "'a::linordered_idom ndarray list \<Rightarrow> py_error + 'a ndarray list" where
  "argmax_rows [] = Inr []"
| "argmax_rows (r # rs) =
     and_then (argmax_axis0 r) (\<lambda>k.
     and_then (argmax_rows rs) (\<lambda>ks. Inr (k # ks)))"

fun argmax_axis1 :: "'a::linordered_idom ndarray \<Rightarrow> py_error + 'a ndarray" where
  "argmax_axis1 (Num v) = Inl ValueError"
| "argmax_axis1 (Arr rs) = and_then (argmax_rows rs) (\<lambda>ks. Inr (Arr ks))"

text \<open>
  \<^verbatim>\<open>np.sum(y == tt)\<close>: the number of positions where the two arrays agree, after
  broadcasting.  The shapes are compared from the last axis on; two lengths are
  compatible when they are equal or one of them is 1, and an array of fewer dimensions is
  repeated along the leading axes of the other.  Shapes that are not compatible raise
  (numpy 1.25 and later).  \<open>eq_count d\<close> counts the agreements of two arrays of at most
  \<open>d\<close> dimensions.
\<close>

fun np_shape :: "'a ndarray \<Rightarrow> nat list" where
  "np_shape (Num v) = []"
| "np_shape (Arr []) = [0]"
| "np_shape (Arr (r # rs)) = Suc (length rs) # np_shape r"

fun broadcastable :: "nat list \<Rightarrow> nat list \<Rightarrow> bool" where
  "broadcastable (m # ms) (n # ns) = ((m = n \<or> m = 1 \<or> n = 1) \<and> broadcastable ms ns)"
| "broadcastable [] ns = True"
| "broadcastable ms [] = True"

fun eq_count :: "nat \<Rightarrow> 'a ndarray \<Rightarrow> 'a ndarray \<Rightarrow> nat" where
  "eq_count 0 a b = (case (a, b) of (Num v, Num w) \<Rightarrow> if v = w then 1 else 0 | _ \<Rightarrow> 0)"
| "eq_count (Suc d) a b =
     (let as = (if ndim a = Suc d then rows a else [a]);
          bs = (if ndim b = Suc d then rows b else [b])
      in if length as = length bs then sum_list (map (\<lambda>(x, y). eq_count d x y) (zip as bs))
         else if length as = 1 then sum_list (map (eq_count d (hd as)) bs)
         else if length bs = 1 then sum_list (map (\<lambda>x. eq_count d x (hd bs)) as)
         else 0)"

definition count_equal :: "'a ndarray \<Rightarrow> 'a ndarray \<Rightarrow> py_error + nat" where
  "count_equal y tt =
     (if broadcastable (rev (np_shape y)) (rev (np_shape tt))
      then Inr (eq_count (max (ndim y) (ndim tt)) y tt)
      else Inl ValueError)"

text \<open>
  \<^verbatim>\<open>n / b\<close> on Python integers is the double nearest to the quotient, a tie going to
  the double whose last bit is 0, and raises \<^verbatim>\<open>OverflowError\<close> when that is no finite
  double.  A double is a multiple \<open>m * 2^u\<close> with \<open>|m| < 2^53\<close> and
  \<open>-1074 \<le> u \<le> 971\<close>; the doubles around a quotient \<open>q\<close> with \<open>2^e \<le> q < 2^(e+1)\<close> are
  the multiples of \<open>2^u\<close> for \<open>u = max (e - 52) (-1074)\<close>.  \<open>ilog2 q\<close> is that \<open>e\<close>, for
  \<open>q > 0\<close>.
\<close>

definition round_half_even :: "rat \<Rightarrow> int" where
  "round_half_even m =
     (let f = \<lfloor>m\<rfloor> in
      if m - of_int f < 1 / 2 then f
      else if 1 / 2 < m - of_int f then f + 1
      else if even f then f else f + 1)"

definition ilog2 :: "rat \<Rightarrow> int" where
  "ilog2 q = (if 1 \<le> q then bitlen \<lfloor>q\<rfloor> - 1 else - bitlen (\<lceil>1 / q\<rceil> - 1))"

definition nearest_double :: "rat \<Rightarrow> py_error + rat" where
  "nearest_double q =
     (if q = 0 then Inr 0
      else let u = max (ilog2 q - 52) (- 1074);
               r = of_int (round_half_even (q / 2 powi u)) * 2 powi u
           in if 2 ^ 1024 \<le> r then Inl OverflowError else Inr r)"

text \<open>
  \<^verbatim>\<open>int(n / b)\<close> for the Python integers \<open>n \<ge> 0\<close> and \<open>b\<close>: true division, which
  raises on a zero divisor, then truncation toward zero.
\<close>

definition py_int_truediv :: "nat \<Rightarrow> int \<Rightarrow> py_error + int" where
  "py_int_truediv n b =
     (if b = 0 then Inl ZeroDivisionError
      else and_then (nearest_double (of_nat n / of_int \<bar>b\<bar>)) (\<lambda>d. Inr (sgn b * \<lfloor>d\<rfloor>)))"

section \<open>Layers\<close>

text \<open>
  The layer classes \<^verbatim>\<open>Convolution\<close>, \<^verbatim>\<open>Relu\<close>, \<^verbatim>\<open>Pooling\<close>, \<^verbatim>\<open>Affine\<close> and
  \<^verbatim>\<open>SoftmaxWithLoss\<close> are imported from \<^verbatim>\<open>common.layers\<close>, which is not among the
  sources.  The script passes the stride, the padding and the pooling sizes to their
  constructors (lines 59 to 70), binds the attributes \<^verbatim>\<open>W\<close> and \<^verbatim>\<open>b\<close> of a layer to
  parameter arrays (lines 59 to 70 and 154 to 155) and reads its attributes \<^verbatim>\<open>dW\<close> and
  \<^verbatim>\<open>db\<close> (lines 133 to 136).  An array is held by reference: a layer and the parameter
  mapping share it.  The values a layer caches in a forward pass are those of section 3
  of the specification; they are \<^verbatim>\<open>None\<close> in a new layer, as the gradients are.
\<close>

type_synonym ref = nat

datatype layer_kind =
    Convolution (conv_stride: int) (conv_pad: int)
  | Relu
  | Pooling (pool_h: int) (pool_w: int) (stride: int)
  | Affine

record ('a, 'c) layer =
  kind :: layer_kind
  W_ref :: "ref option"
  b_ref :: "ref option"
  dW :: "'a ndarray option"
  db :: "'a ndarray option"
  cache :: "'c option"

text \<open>
  The arithmetic of the layers is a parameter of the model: what a forward pass returns
  and caches, given the kind of the layer, the values of its weight and bias and its
  input; what a backward pass returns as input gradient and as weight and bias gradients
  (none for a layer without parameters), given in addition the cache and the upstream
  gradient; and the same for the loss layer, whose forward pass takes the scores and the
  labels.
\<close>

record ('a, 'c) layer_ops =
  forward_of :: "layer_kind \<Rightarrow> 'a ndarray option \<Rightarrow> 'a ndarray option \<Rightarrow> 'a ndarray
                  \<Rightarrow> 'a ndarray \<times> 'c"
  backward_of :: "layer_kind \<Rightarrow> 'a ndarray option \<Rightarrow> 'a ndarray option \<Rightarrow> 'c option
                   \<Rightarrow> 'a ndarray \<Rightarrow> 'a ndarray \<times> ('a ndarray \<times> 'a ndarray) option"
  loss_forward_of :: "'a ndarray \<Rightarrow> 'a ndarray \<Rightarrow> 'a ndarray \<times> 'c"
  loss_backward_of :: "'c option \<Rightarrow> 'a ndarray \<Rightarrow> 'a ndarray"

definition deref :: "(ref \<rightharpoonup> 'a ndarray) \<Rightarrow> ref option \<Rightarrow> 'a ndarray option" where
  "deref h r = (case r of None \<Rightarrow> None | Some a \<Rightarrow> h a)"

text \<open>
  Modelled from the spec: the methods \<^verbatim>\<open>forward\<close> and \<^verbatim>\<open>backward\<close> of the layer classes
  (\<^verbatim>\<open>common.layers\<close> is not among the sources).  By sections 3, 4 and 5 of the
  specification a forward pass reads the parameters and the input and overwrites the
  cache of the layer; a backward pass reads the cache and stores \<^verbatim>\<open>dW\<close> and \<^verbatim>\<open>db\<close> on
  the instance; neither writes a parameter array.
\<close>

definition layer_forward ::
  "('a, 'c) layer_ops \<Rightarrow> (ref \<rightharpoonup> 'a ndarray) \<Rightarrow> ('a, 'c) layer \<Rightarrow> 'a ndarray
     \<Rightarrow> 'a ndarray \<times> ('a, 'c) layer" where
  "layer_forward ops h l x =
     (case forward_of ops (kind l) (deref h (W_ref l)) (deref h (b_ref l)) x of
        (y, c) \<Rightarrow> (y, l\<lparr>cache := Some c\<rparr>))"

definition layer_backward ::
  "('a, 'c) layer_ops \<Rightarrow> (ref \<rightharpoonup> 'a ndarray) \<Rightarrow> ('a, 'c) layer \<Rightarrow> 'a ndarray
     \<Rightarrow> 'a ndarray \<times> ('a, 'c) layer" where
  "layer_backward ops h l dout =
     (case backward_of ops (kind l) (deref h (W_ref l)) (deref h (b_ref l)) (cache l) dout of
        (dx, g) \<Rightarrow>
          (dx, case g of None \<Rightarrow> l | Some (gw, gb) \<Rightarrow> l\<lparr>dW := Some gw, db := Some gb\<rparr>))"

section \<open>The network\<close>

text \<open>
  The state of the program: the store of parameter arrays, and the attributes of the
  \<^verbatim>\<open>SimpleConvNet\<close> instance.  \<^verbatim>\<open>self.params\<close> maps a name to the reference of an
  array, \<^verbatim>\<open>self.layers\<close> is an \<^verbatim>\<open>OrderedDict\<close> (an association list in insertion
  order), \<^verbatim>\<open>self.last_layer\<close> is the \<^verbatim>\<open>SoftmaxWithLoss\<close> instance, of which only the
  cache matters.
\<close>

record ('a, 'c) state =
  heap :: "ref \<rightharpoonup> 'a ndarray"
  params :: "string \<rightharpoonup> ref"
  layers :: "(string \<times> ('a, 'c) layer) list"
  last_layer :: "'c option"

definition new_layer :: "layer_kind \<Rightarrow> ref option \<Rightarrow> ref option \<Rightarrow> ('a, 'c) layer" where
  "new_layer k w b =
     \<lparr> kind = k, W_ref = w, b_ref = b, dW = None, db = None, cache = None \<rparr>"

text \<open>
  The constructor (lines 25 to 72).  The arrays returned by \<^verbatim>\<open>np.random.randn\<close> and
  \<^verbatim>\<open>np.zeros\<close> are given by \<open>draw\<close>, from the name and the shape of the parameter; they
  are stored at the references 0 to 7.
\<close>

definition SimpleConvNet ::
  "(string \<Rightarrow> int list \<Rightarrow> 'a ndarray) \<Rightarrow> int \<times> int \<times> int \<Rightarrow> (string \<rightharpoonup> int) \<Rightarrow> int \<Rightarrow> int
     \<Rightarrow> py_error + ('a, 'c) state" where
  "SimpleConvNet draw input_dim conv_param hidden_size output_size =
     and_then (derive_dims input_dim conv_param) (\<lambda>d.
     and_then (param_shapes input_dim d hidden_size output_size) (\<lambda>shapes.
     and_then (py_getitem conv_param ''stride'') (\<lambda>st.
     and_then (py_getitem conv_param ''pad'') (\<lambda>pd.
       Inr \<lparr> heap = map_of (zip [0 ..< 8] (map (\<lambda>(name, shape). draw name shape) shapes)),
             params = map_of (zip (map fst shapes) [0 ..< 8]),
             layers =
               [(''Conv1'', new_layer (Convolution st pd) (Some 0) (Some 1)),
                (''Relu1'', new_layer Relu None None),
                (''Pool1'', new_layer (Pooling pool_height pool_width pool_stride) None None),
                (''Affine1'', new_layer Affine (Some 2) (Some 3)),
                (''Relu2'', new_layer Relu None None),
                (''Affine2'', new_layer Affine (Some 4) (Some 5)),
                (''Relu3'', new_layer Relu None None),
                (''Affine3'', new_layer Affine (Some 6) (Some 7))],
             last_layer = None \<rparr>))))"

text \<open>\<^verbatim>\<open>predict\<close>: the loop over \<^verbatim>\<open>self.layers.values()\<close>.\<close>

fun forward_layers ::
  "('a, 'c) layer_ops \<Rightarrow> (ref \<rightharpoonup> 'a ndarray) \<Rightarrow> (string \<times> ('a, 'c) layer) list \<Rightarrow> 'a ndarray
     \<Rightarrow> 'a ndarray \<times> (string \<times> ('a, 'c) layer) list" where
  "forward_layers ops h [] x = (x, [])"
| "forward_layers ops h ((key, l) # ls) x =
     (case layer_forward ops h l x of
        (y, l') \<Rightarrow> (case forward_layers ops h ls y of (z, ls') \<Rightarrow> (z, (key, l') # ls')))"

definition predict ::
  "('a, 'c) layer_ops \<Rightarrow> ('a, 'c) state \<Rightarrow> 'a ndarray \<Rightarrow> 'a ndarray \<times> ('a, 'c) state" where
  "predict ops s x =
     (case forward_layers ops (heap s) (layers s) x of (y, ls) \<Rightarrow> (y, s\<lparr>layers := ls\<rparr>))"

definition loss ::
  "('a, 'c) layer_ops \<Rightarrow> ('a, 'c) state \<Rightarrow> 'a ndarray \<Rightarrow> 'a ndarray
     \<Rightarrow> 'a ndarray \<times> ('a, 'c) state" where
  "loss ops s x t =
     (case predict ops s x of
        (y, s1) \<Rightarrow> (case loss_forward_of ops y t of
                      (l, c) \<Rightarrow> (l, s1\<lparr>last_layer := Some c\<rparr>)))"

text \<open>
  \<^verbatim>\<open>accuracy\<close>: the body of the loop, which yields \<^verbatim>\<open>np.sum(y == tt)\<close> for the chunk
  \<open>i\<close>, the loop over \<^verbatim>\<open>range(int(x.shape[0] / batch_size))\<close>, and the method.  The
  number of chunks is the truncated double \<open>py_int_truediv\<close>; a range is empty when it
  is negative.  The accumulator \<^verbatim>\<open>acc\<close> is a float that holds a count.  The value
  returned is the double nearest to the quotient of the count by the number of samples;
  the model returns the quotient itself.  Without samples the loop does not run,
  \<^verbatim>\<open>acc\<close> is the Python float \<^verbatim>\<open>0.0\<close>, and dividing it by \<^verbatim>\<open>x.shape[0] = 0\<close> raises.
\<close>

definition batch_matches ::
  "('a::linordered_idom, 'c) layer_ops \<Rightarrow> ('a, 'c) state \<Rightarrow> 'a ndarray \<Rightarrow> 'a ndarray \<Rightarrow> nat
     \<Rightarrow> nat \<Rightarrow> (py_error + nat) \<times> ('a, 'c) state" where
  "batch_matches ops s x t batch_size i =
     (case and_then (slice0 (i * batch_size) ((i + 1) * batch_size) x) (\<lambda>tx.
           and_then (slice0 (i * batch_size) ((i + 1) * batch_size) t) (\<lambda>tt.
             Inr (tx, tt))) of
        Inl e \<Rightarrow> (Inl e, s)
      | Inr (tx, tt) \<Rightarrow>
          (case predict ops s tx of
             (y, s') \<Rightarrow> (and_then (argmax_axis1 y) (\<lambda>y'. count_equal y' tt), s')))"

fun accuracy_loop ::
  "('a::linordered_idom, 'c) layer_ops \<Rightarrow> 'a ndarray \<Rightarrow> 'a ndarray \<Rightarrow> nat \<Rightarrow> nat list \<Rightarrow> nat
     \<Rightarrow> ('a, 'c) state \<Rightarrow> (py_error + nat) \<times> ('a, 'c) state" where
  "accuracy_loop ops x t batch_size [] acc s = (Inr acc, s)"
| "accuracy_loop ops x t batch_size (i # is) acc s =
     (case batch_matches ops s x t batch_size i of
        (Inl e, s') \<Rightarrow> (Inl e, s')
      | (Inr c, s') \<Rightarrow> accuracy_loop ops x t batch_size is (acc + c) s')"

definition accuracy ::
  "('a::linordered_idom, 'c) layer_ops \<Rightarrow> ('a, 'c) state \<Rightarrow> 'a ndarray \<Rightarrow> 'a ndarray \<Rightarrow> int
     \<Rightarrow> (py_error + rat) \<times> ('a, 'c) state" where
  "accuracy ops s x t batch_size =
     (case and_then (if ndim t \<noteq> 1 then argmax_axis1 t else Inr t) (\<lambda>t1.
           and_then (shape0 x) (\<lambda>n.
           and_then (py_int_truediv n batch_size) (\<lambda>k. Inr (t1, n, k)))) of
        Inl e \<Rightarrow> (Inl e, s)
      | Inr (t1, n, k) \<Rightarrow>
         (case accuracy_loop ops x t1 (nat batch_size) [0 ..< nat k] 0 s of
            (Inl e, s') \<Rightarrow> (Inl e, s')
          | (Inr acc, s') \<Rightarrow>
              (if n = 0 then (Inl ZeroDivisionError, s')
               else (Inr (of_nat acc / of_nat n), s'))))"

text \<open>
  \<^verbatim>\<open>gradient\<close>: the forward pass, the backward pass over the reversed list of layers
  (the list holds the layer objects themselves, so the loop updates the layers of the
  network), and the dictionary of gradients.  An entry of that dictionary is the value of
  the attribute \<^verbatim>\<open>dW\<close> or \<^verbatim>\<open>db\<close>, which is \<^verbatim>\<open>None\<close> before the first backward pass;
  a \<^verbatim>\<open>Relu\<close> or \<^verbatim>\<open>Pooling\<close> object has no such attribute.
\<close>

fun backward_layers ::
  "('a, 'c) layer_ops \<Rightarrow> (ref \<rightharpoonup> 'a ndarray) \<Rightarrow> (string \<times> ('a, 'c) layer) list \<Rightarrow> 'a ndarray
     \<Rightarrow> 'a ndarray \<times> (string \<times> ('a, 'c) layer) list" where
  "backward_layers ops h [] dout = (dout, [])"
| "backward_layers ops h ((key, l) # ls) dout =
     (case layer_backward ops h l dout of
        (dx, l') \<Rightarrow> (case backward_layers ops h ls dx of (d, ls') \<Rightarrow> (d, (key, l') # ls')))"

definition has_grads :: "layer_kind \<Rightarrow> bool" where
  "has_grads k = (case k of Convolution st pd \<Rightarrow> True | Affine \<Rightarrow> True | _ \<Rightarrow> False)"

definition layer_grads ::
  "(string \<times> ('a, 'c) layer) list \<Rightarrow> string
     \<Rightarrow> py_error + 'a ndarray option \<times> 'a ndarray option" where
  "layer_grads ls key =
     and_then (py_getitem (map_of ls) key) (\<lambda>l.
       if has_grads (kind l) then Inr (dW l, db l) else Inl AttributeError)"

definition collect_grads ::
  "(string \<times> ('a, 'c) layer) list \<Rightarrow> py_error + (string \<rightharpoonup> 'a ndarray option)" where
  "collect_grads ls =
     and_then (layer_grads ls ''Conv1'') (\<lambda>(w1, b1).
     and_then (layer_grads ls ''Affine1'') (\<lambda>(w2, b2).
     and_then (layer_grads ls ''Affine2'') (\<lambda>(w3, b3).
     and_then (layer_grads ls ''Affine3'') (\<lambda>(w4, b4).
       Inr [''W1'' \<mapsto> w1, ''b1'' \<mapsto> b1, ''W2'' \<mapsto> w2, ''b2'' \<mapsto> b2,
            ''W3'' \<mapsto> w3, ''b3'' \<mapsto> b3, ''W4'' \<mapsto> w4, ''b4'' \<mapsto> b4]))))"

definition gradient ::
  "('a::one, 'c) layer_ops \<Rightarrow> ('a, 'c) state \<Rightarrow> 'a ndarray \<Rightarrow> 'a ndarray
     \<Rightarrow> (py_error + (string \<rightharpoonup> 'a ndarray option)) \<times> ('a, 'c) state" where
  "gradient ops s x t =
     (case loss ops s x t of
        (l, s1) \<Rightarrow>
          (case backward_layers ops (heap s1) (rev (layers s1))
                  (loss_backward_of ops (last_layer s1) (Num 1)) of
             (dx, ls) \<Rightarrow> (collect_grads (rev ls), s1\<lparr>layers := rev ls\<rparr>)))"

text \<open>
  \<^verbatim>\<open>load_params\<close>: \<open>loaded\<close> is the dictionary returned by \<^verbatim>\<open>pickle.load\<close>, a list of
  names with the references of the arrays just read.  In
  \<^verbatim>\<open>self.layers[key].W = self.params['W' + str(i+1)]\<close> the right-hand side is evaluated
  first.
\<close>

definition digit_char :: "nat \<Rightarrow> char" where
  "digit_char d = ''0123456789'' ! d"

fun py_str :: "nat \<Rightarrow> string" where
  "py_str n =
     (if n < 10 then [digit_char n] else py_str (n div 10) @ [digit_char (n mod 10)])"

declare py_str.simps [simp del]

definition set_layer ::
  "string \<Rightarrow> (('a, 'c) layer \<Rightarrow> ('a, 'c) layer) \<Rightarrow> (string \<times> ('a, 'c) layer) list
     \<Rightarrow> py_error + (string \<times> ('a, 'c) layer) list" where
  "set_layer key f ls =
     (if key \<in> set (map fst ls)
      then Inr (map (\<lambda>(k, l). if k = key then (k, f l) else (k, l)) ls)
      else Inl KeyError)"

fun rebind ::
  "(string \<rightharpoonup> ref) \<Rightarrow> (nat \<times> string) list \<Rightarrow> (string \<times> ('a, 'c) layer) list
     \<Rightarrow> py_error + (string \<times> ('a, 'c) layer) list" where
  "rebind ps [] ls = Inr ls"
| "rebind ps ((i, key) # rest) ls =
     and_then (py_getitem ps (''W'' @ py_str (i + 1))) (\<lambda>w.
     and_then (set_layer key (\<lambda>l. l\<lparr>W_ref := Some w\<rparr>) ls) (\<lambda>ls1.
     and_then (py_getitem ps (''b'' @ py_str (i + 1))) (\<lambda>b.
     and_then (set_layer key (\<lambda>l. l\<lparr>b_ref := Some b\<rparr>) ls1) (\<lambda>ls2.
       rebind ps rest ls2))))"

definition load_params ::
  "('a, 'c) state \<Rightarrow> (string \<times> ref) list \<Rightarrow> py_error + ('a, 'c) state" where
  "load_params s loaded =
     (let ps = fold (\<lambda>(key, val) m. m(key \<mapsto> val)) loaded (params s)
      in and_then (rebind ps (enumerate 0 [''Conv1'', ''Affine1'', ''Affine2'', ''Affine3''])
                     (layers s))
           (\<lambda>ls. Inr (s\<lparr>params := ps, layers := ls\<rparr>)))"

section \<open>Notions used in the statements\<close>

text \<open>
  What a forward or backward pass never changes in a layer: its name in the dictionary,
  its kind with the hyperparameters, and the references of its weight and bias.
\<close>

definition static ::
  "string \<times> ('a, 'c) layer \<Rightarrow> string \<times> layer_kind \<times> ref option \<times> ref option" where
  "static p = (fst p, kind (snd p), W_ref (snd p), b_ref (snd p))"

text \<open>
  The topology the constructor builds: the eight layers in insertion order, the
  convolution and the three affine layers holding the references that \<^verbatim>\<open>self.params\<close>
  gives to \<^verbatim>\<open>W1\<close>, \<^verbatim>\<open>b1\<close>, ..., \<^verbatim>\<open>W4\<close>, \<^verbatim>\<open>b4\<close>.
\<close>

definition wired :: "int \<Rightarrow> int \<Rightarrow> ('a, 'c) state \<Rightarrow> bool" where
  "wired st pd s \<longleftrightarrow>
     map static (layers s) =
       [(''Conv1'', Convolution st pd, params s ''W1'', params s ''b1''),
        (''Relu1'', Relu, None, None),
        (''Pool1'', Pooling pool_height pool_width pool_stride, None, None),
        (''Affine1'', Affine, params s ''W2'', params s ''b2''),
        (''Relu2'', Relu, None, None),
        (''Affine2'', Affine, params s ''W3'', params s ''b3''),
        (''Relu3'', Relu, None, None),
        (''Affine3'', Affine, params s ''W4'', params s ''b4'')]"

text \<open>The array a parameter name stands for, and the forward function of a layer.\<close>

definition param_value :: "('a, 'c) state \<Rightarrow> string \<Rightarrow> 'a ndarray option" where
  "param_value s name = deref (heap s) (params s name)"

definition forward_fn ::
  "('a, 'c) layer_ops \<Rightarrow> layer_kind \<Rightarrow> 'a ndarray option \<Rightarrow> 'a ndarray option \<Rightarrow> 'a ndarray
     \<Rightarrow> 'a ndarray" where
  "forward_fn ops k w b x = fst (forward_of ops k w b x)"

text \<open>
  The rows \<open>i * b\<close> to \<open>(i + 1) * b - 1\<close> of a batch, and the classes the network
  predicts for a batch: the row-wise argmax of its scores.
\<close>

definition chunk :: "nat \<Rightarrow> nat \<Rightarrow> 'a list \<Rightarrow> 'a list" where
  "chunk b i xs = take b (drop (i * b) xs)"

definition predicted_classes ::
  "('a::linordered_idom, 'c) layer_ops \<Rightarrow> ('a, 'c) state \<Rightarrow> 'a ndarray
     \<Rightarrow> py_error + 'a list" where
  "predicted_classes ops s tx =
     and_then (argmax_axis1 (fst (predict ops s tx))) (\<lambda>y.
       case vector_of y of None \<Rightarrow> Inl ValueError | Some cs \<Rightarrow> Inr cs)"

section \<open>The optimizer\<close>

text \<open>
  Modelled from the spec: the class \<^verbatim>\<open>Adam\<close> of \<^verbatim>\<open>common.optimizer\<close>, which the
  script constructs with \<^verbatim>\<open>Adam(lr=0.001)\<close> and calls as
  \<^verbatim>\<open>optimizer.update(network.params, grad)\<close>, is not among the sources.  Sections 3
  and 4.7 of the specification give its state (the learning rate, \<open>\<beta>1 = 0.9\<close>,
  \<open>\<beta>2 = 0.999\<close>, one step counter, the two moment mappings, absent until the first
  update) and its update rule.  A tensor is the list of its numbers, the operations being
  elementwise; the numbers are reals, so the rounding of floating-point arithmetic is not
  modelled.
\<close>

type_synonym tensors = "string \<rightharpoonup> real list"

record adam =
  adam_lr :: real
  adam_beta1 :: real
  adam_beta2 :: real
  adam_iter :: nat
  adam_m :: "tensors option"
  adam_v :: "tensors option"

definition Adam :: "real \<Rightarrow> adam" where
  "Adam lr = \<lparr> adam_lr = lr, adam_beta1 = 9 / 10, adam_beta2 = 999 / 1000, adam_iter = 0,
               adam_m = None, adam_v = None \<rparr>"

definition adam_eps :: real where
  "adam_eps = 1 / 10 ^ 7"

definition zeros_like :: "real list \<Rightarrow> real list" where
  "zeros_like p = map (\<lambda>_. 0) p"

text \<open>
  Modelled from the spec: \<open>m \<leftarrow> m + (1 - \<beta>1)(grad - m)\<close>,
  \<open>v \<leftarrow> v + (1 - \<beta>2)(grad\<^sup>2 - v)\<close> and
  \<open>param \<leftarrow> param - lr_t * m / (\<surd>v + \<epsilon>)\<close>, elementwise.
\<close>

definition moment1 :: "real \<Rightarrow> real list \<Rightarrow> real list \<Rightarrow> real list" where
  "moment1 b1 m g = map (\<lambda>(mi, gi). mi + (1 - b1) * (gi - mi)) (zip m g)"

definition moment2 :: "real \<Rightarrow> real list \<Rightarrow> real list \<Rightarrow> real list" where
  "moment2 b2 v g = map (\<lambda>(vi, gi). vi + (1 - b2) * (gi\<^sup>2 - vi)) (zip v g)"

definition descend :: "real \<Rightarrow> real list \<Rightarrow> real list \<Rightarrow> real list \<Rightarrow> real list" where
  "descend lr_t p m v =
     map (\<lambda>(pi, mi, vi). pi - lr_t * mi / (sqrt vi + adam_eps)) (zip p (zip m v))"

text \<open>
  Modelled from the spec: the update of one key, for a key present in the parameters,
  the moments and the gradients; the loop over the keys of the parameter mapping; and
  \<^verbatim>\<open>update\<close>, which creates zero moments shaped like the parameters on the first call,
  increments the step counter once, and computes
  \<open>lr_t = lr * \<surd>(1 - \<beta>2^t) / (1 - \<beta>1^t)\<close>.  The parameters are mutated in place:
  the model returns the updated mapping.  \<open>keys\<close> are the keys of the parameter mapping.
\<close>

definition adam_one ::
  "real \<Rightarrow> real \<Rightarrow> real \<Rightarrow> tensors \<Rightarrow> string \<Rightarrow> tensors \<times> tensors \<times> tensors
     \<Rightarrow> tensors \<times> tensors \<times> tensors" where
  "adam_one b1 b2 lr_t gs key pmv =
     (case pmv of (ps, m, v) \<Rightarrow>
        (case (ps key, m key, v key, gs key) of
           (Some p, Some mk, Some vk, Some g) \<Rightarrow>
             (ps(key \<mapsto> descend lr_t p (moment1 b1 mk g) (moment2 b2 vk g)),
              m(key \<mapsto> moment1 b1 mk g), v(key \<mapsto> moment2 b2 vk g))
         | _ \<Rightarrow> (ps, m, v)))"

fun adam_keys ::
  "real \<Rightarrow> real \<Rightarrow> real \<Rightarrow> tensors \<Rightarrow> string list \<Rightarrow> tensors \<times> tensors \<times> tensors
     \<Rightarrow> tensors \<times> tensors \<times> tensors" where
  "adam_keys b1 b2 lr_t gs [] pmv = pmv"
| "adam_keys b1 b2 lr_t gs (key # keys) pmv =
     adam_keys b1 b2 lr_t gs keys (adam_one b1 b2 lr_t gs key pmv)"

definition adam_update :: "adam \<Rightarrow> string list \<Rightarrow> tensors \<Rightarrow> tensors \<Rightarrow> adam \<times> tensors" where
  "adam_update opt keys ps gs =
     (let m0 = (case adam_m opt of None \<Rightarrow> (\<lambda>key. map_option zeros_like (ps key))
                | Some m \<Rightarrow> m);
          v0 = (case adam_v opt of None \<Rightarrow> (\<lambda>key. map_option zeros_like (ps key))
                | Some v \<Rightarrow> v);
          t = adam_iter opt + 1;
          lr_t = adam_lr opt * sqrt (1 - adam_beta2 opt ^ t) / (1 - adam_beta1 opt ^ t)
      in case adam_keys (adam_beta1 opt) (adam_beta2 opt) lr_t gs keys (ps, m0, v0) of
           (ps', m', v') \<Rightarrow> (opt\<lparr>adam_iter := t, adam_m := Some m', adam_v := Some v'\<rparr>, ps'))"

text \<open>
  The change of a parameter entry after the first update that the specification's test
  of the update expects, for the learning rate \<open>lr\<close> and the gradient entry \<open>g\<close>:
  \<open>- lr * sign(g) * (1 - \<beta>1) / \<surd>(1 - \<beta>2)\<close>.
\<close>

definition claimed_first_step :: "real \<Rightarrow> real \<Rightarrow> real" where
  "claimed_first_step lr g = - lr * sgn g * (1 - 9 / 10) / sqrt (1 - 999 / 1000)"

text \<open>The entries of the parameters and the two moments under one key.\<close>

definition at_key :: "tensors \<times> tensors \<times> tensors \<Rightarrow> string
    \<Rightarrow> real list option \<times> real list option \<times> real list option" where
  "at_key pmv key = (fst pmv key, fst (snd pmv) key, snd (snd pmv) key)"

section \<open>Concrete inputs\<close>

text \<open>
  Inputs at which the theorems below are evaluated: two configurations of the
  convolution, a draw of the initial parameters, layer arithmetic on integer arrays (every
  forward pass clamps at zero and caches its input, every backward pass wraps the upstream
  gradient and stores it as both gradients), the network the constructor builds from the
  default arguments, the same network with other caches and gradients, a batch of five samples with one-hot labels, a label array of three dimensions, the references of eight
  arrays read by \<^verbatim>\<open>pickle.load\<close> with a store that holds them, and a parameter with
  its gradient for the optimizer.
\<close>

definition zero_draw :: "string \<Rightarrow> int list \<Rightarrow> int ndarray" where
  "zero_draw name shape = Num 0"

definition stride2_conv_param :: "string \<rightharpoonup> int" where
  "stride2_conv_param =
     [''filter_num'' \<mapsto> 30, ''filter_size'' \<mapsto> 5, ''pad'' \<mapsto> 0, ''stride'' \<mapsto> 2]"

definition wide_conv_param :: "string \<rightharpoonup> int" where
  "wide_conv_param =
     [''filter_num'' \<mapsto> 30, ''filter_size'' \<mapsto> 30, ''pad'' \<mapsto> 0, ''stride'' \<mapsto> 1]"

definition demo_ops :: "(int, int ndarray) layer_ops" where
  "demo_ops =
     \<lparr> forward_of = (\<lambda>k w b x. (map_ndarray (max 0) x, x)),
       backward_of = (\<lambda>k w b c d. (Arr [d], Some (d, d))),
       loss_forward_of = (\<lambda>y t. (Num 0, y)),
       loss_backward_of = (\<lambda>c d. d) \<rparr>"

definition demo_net :: "(int, int ndarray) state" where
  "demo_net = projr (SimpleConvNet zero_draw default_input_dim default_conv_param 100 10)"

definition stale_net :: "(int, int ndarray) state" where
  "stale_net =
     demo_net\<lparr>layers := map (\<lambda>(key, l). (key, l\<lparr>cache := Some (Num 9), dW := Some (Num 8)\<rparr>))
                           (layers demo_net),
              last_layer := Some (Num 7)\<rparr>"

definition demo_xs :: "int ndarray list" where
  "demo_xs = [Arr [Num 2, Num (- 1)], Arr [Num 0, Num 1], Arr [Num 1, Num 0],
              Arr [Num 0, Num 3], Arr [Num (- 2), Num 1]]"

definition demo_onehot :: "int ndarray" where
  "demo_onehot = Arr [Arr [Num 1, Num 0], Arr [Num 0, Num 1], Arr [Num 0, Num 1],
                      Arr [Num 0, Num 1], Arr [Num 0, Num 1]]"

definition demo_labels3 :: "int ndarray" where
  "demo_labels3 = Arr [Arr [Arr [Num 1, Num 5], Arr [Num 4, Num 2]]]"

definition loaded_refs :: "(string \<times> ref) list" where
  "loaded_refs = [(''W1'', 10), (''b1'', 11), (''W2'', 12), (''b2'', 13),
                  (''W3'', 14), (''b3'', 15), (''W4'', 16), (''b4'', 17)]"

definition unpickled_net :: "(int, int ndarray) state" where
  "unpickled_net =
     demo_net\<lparr>heap := heap demo_net
                  ++ map_of (map (\<lambda>(name, r). (r, Arr [Num (int r)])) loaded_refs)\<rparr>"

definition one_param :: tensors where
  "one_param = [''W1'' \<mapsto> [0]]"

definition one_grad :: tensors where
  "one_grad = [''W1'' \<mapsto> [1]]"


section \<open>Basic facts\<close>

lemma and_then_Inr [simp]: "and_then (Inr v) f = f v"
  by (simp add: and_then_def)

lemma and_then_Inl [simp]: "and_then (Inl e) f = Inl e"
  by (simp add: and_then_def)

lemmas shape_defs =
  derive_dims_def py_getitem_def py_floordiv_def pool_height_def pool_width_def
  pool_stride_def param_shapes_def scaled_randn_def np_alloc_def he_scale_def

section \<open>Shape derivation\<close>

text \<open>
  C2.  With \<^verbatim>\<open>input_dim=(1,28,28)\<close>, 30 filters of size 5, no padding and stride 1, the
  constructor derives a 24 by 24 convolution output, a 12 by 12 pooling output and
  \<open>30 * 12 * 12 = 4320\<close> features for the first affine layer, whose weight has the shape
  (4320, 100).
\<close>

theorem shape_default:
  "derive_dims default_input_dim default_conv_param =
     Inr \<lparr> filter_num = 30, filter_size = 5, filter_pad = 0, filter_stride = 1,
           conv_output_height = 24, conv_output_width = 24,
           pool_output_height = 12, pool_output_width = 12,
           pool_output_size = 4320 \<rparr>
   \<and> and_then (derive_dims default_input_dim default_conv_param)
        (\<lambda>d. param_shapes default_input_dim d 100 10) =
     Inr [(''W1'', [30, 1, 5, 5]), (''b1'', [30]), (''W2'', [4320, 100]), (''b2'', [100]),
          (''W3'', [100, 100]), (''b3'', [100]), (''W4'', [100, 10]), (''b4'', [10])]"
  by (simp add: shape_defs default_input_dim_def default_conv_param_def)

lemma floor_bounds:
  fixes a st :: int
  assumes "0 < st"
  shows "st * (a div st + 1 - 1) \<le> a" and "a < st * (a div st + 1)"
proof -
  define q where "q = a div st"
  define r where "r = a mod st"
  have a: "a = st * q + r" by (simp add: q_def r_def)
  have r: "0 \<le> r" "r < st" using assms by (simp_all add: r_def)
  show "st * (a div st + 1 - 1) \<le> a"
    unfolding q_def [symmetric] using a r by simp
  have "st * (q + 1) = st * q + st" by (simp add: distrib_left)
  then show "a < st * (a div st + 1)"
    unfolding q_def [symmetric] using a r by linarith
qed

lemma derive_dims_value:
  assumes "conv_param ''filter_num'' = Some fnum"
    and "conv_param ''filter_size'' = Some fsize"
    and "conv_param ''pad'' = Some fpad"
    and "conv_param ''stride'' = Some st"
    and "st \<noteq> 0"
  shows "derive_dims (c, h, w) conv_param =
     Inr \<lparr> filter_num = fnum, filter_size = fsize, filter_pad = fpad, filter_stride = st,
           conv_output_height = (h - fsize + 2 * fpad) div st + 1,
           conv_output_width = (w - fsize + 2 * fpad) div st + 1,
           pool_output_height = ((h - fsize + 2 * fpad) div st + 1 - 2) div 2 + 1,
           pool_output_width = ((w - fsize + 2 * fpad) div st + 1 - 2) div 2 + 1,
           pool_output_size = fnum * (((h - fsize + 2 * fpad) div st + 1 - 2) div 2 + 1)
                                   * (((w - fsize + 2 * fpad) div st + 1 - 2) div 2 + 1) \<rparr>"
  using assms by (simp add: shape_defs)

lemma stride2_dims:
  "derive_dims (1, 28, 28) stride2_conv_param =
       Inr \<lparr> filter_num = 30, filter_size = 5, filter_pad = 0, filter_stride = 2,
             conv_output_height = 12, conv_output_width = 12,
             pool_output_height = 6, pool_output_width = 6, pool_output_size = 1080 \<rparr>"
  by (simp add: shape_defs stride2_conv_param_def)

lemma wide_dims:
  "derive_dims (1, 28, 28) wide_conv_param =
       Inr \<lparr> filter_num = 30, filter_size = 30, filter_pad = 0, filter_stride = 1,
             conv_output_height = - 1, conv_output_width = - 1,
             pool_output_height = - 1, pool_output_width = - 1, pool_output_size = 30 \<rparr>"
  by (simp add: shape_defs wide_conv_param_def)

lemma SimpleConvNet_returns:
  assumes "derive_dims input_dim conv_param = Inr d"
    and "param_shapes input_dim d hidden_size output_size = Inr shapes"
  shows "\<not> isl (SimpleConvNet draw input_dim conv_param hidden_size output_size)"
proof -
  obtain c h w where i: "input_dim = (c, h, w)" by (cases input_dim) auto
  from assms(1) obtain st pd where
    "conv_param ''stride'' = Some st" "conv_param ''pad'' = Some pd"
    unfolding i derive_dims_def py_getitem_def and_then_def
    by (auto split: option.splits sum.splits)
  then show ?thesis
    unfolding SimpleConvNet_def assms and_then_Inr py_getitem_def by simp
qed

text \<open>
  C3, as stated, fails.  The constructor has no check of the derived sizes.  With stride 2
  the quotient \<open>(28 + 2 * 0 - 5) / 2\<close> is not an integer: it is floored, the sizes are
  12, 6 and 1080, and the constructor returns a network.  With a filter of size 30 the
  convolution and pooling outputs have size \<open>-1\<close>, the feature count is
  \<open>30 * (-1) * (-1) = 30\<close>, and the constructor returns a network as well.
\<close>

theorem construction_unchecked_counterexample:
  "\<not> (2::int) dvd 28 + 2 * 0 - 5
   \<and> derive_dims (1, 28, 28) stride2_conv_param =
       Inr \<lparr> filter_num = 30, filter_size = 5, filter_pad = 0, filter_stride = 2,
             conv_output_height = 12, conv_output_width = 12,
             pool_output_height = 6, pool_output_width = 6, pool_output_size = 1080 \<rparr>
   \<and> \<not> isl (SimpleConvNet zero_draw (1, 28, 28) stride2_conv_param 100 10
               :: py_error + (int, unit) state)
   \<and> derive_dims (1, 28, 28) wide_conv_param =
       Inr \<lparr> filter_num = 30, filter_size = 30, filter_pad = 0, filter_stride = 1,
             conv_output_height = - 1, conv_output_width = - 1,
             pool_output_height = - 1, pool_output_width = - 1, pool_output_size = 30 \<rparr>
   \<and> \<not> isl (SimpleConvNet zero_draw (1, 28, 28) wide_conv_param 100 10
               :: py_error + (int, unit) state)"
proof -
  have odd: "\<not> (2::int) dvd 28 + 2 * 0 - 5" by simp
  have s2: "\<not> isl (SimpleConvNet zero_draw (1, 28, 28) stride2_conv_param 100 10
               :: py_error + (int, unit) state)"
    by (rule SimpleConvNet_returns [OF stride2_dims]) (simp add: shape_defs)
  have wd: "\<not> isl (SimpleConvNet zero_draw (1, 28, 28) wide_conv_param 100 10
               :: py_error + (int, unit) state)"
    by (rule SimpleConvNet_returns [OF wide_dims]) (simp add: shape_defs)
  show ?thesis using odd s2 wd stride2_dims wide_dims by blast
qed

text \<open>
  C3, amended.  For a \<^verbatim>\<open>conv_param\<close> with its four keys and a positive stride the
  derivation of the sizes raises nothing, whatever the sizes are: each output size is the
  floor of its quotient plus one, and the feature count is the product of the filter count
  and the two pooling sizes.
\<close>

theorem derive_dims_floor:
  assumes "conv_param ''filter_num'' = Some fnum"
    and "conv_param ''filter_size'' = Some fsize"
    and "conv_param ''pad'' = Some fpad"
    and "conv_param ''stride'' = Some st"
    and "0 < st"
  shows "\<exists>d. derive_dims (c, h, w) conv_param = Inr d
     \<and> st * (conv_output_height d - 1) \<le> h - fsize + 2 * fpad
     \<and> h - fsize + 2 * fpad < st * conv_output_height d
     \<and> st * (conv_output_width d - 1) \<le> w - fsize + 2 * fpad
     \<and> w - fsize + 2 * fpad < st * conv_output_width d
     \<and> 2 * (pool_output_height d - 1) \<le> conv_output_height d - 2
     \<and> conv_output_height d - 2 < 2 * pool_output_height d
     \<and> 2 * (pool_output_width d - 1) \<le> conv_output_width d - 2
     \<and> conv_output_width d - 2 < 2 * pool_output_width d
     \<and> pool_output_size d = fnum * pool_output_height d * pool_output_width d"
proof -
  have ne: "st \<noteq> 0" using assms(5) by simp
  note v = derive_dims_value [OF assms(1-4) ne, of c h w]
  note fh = floor_bounds [OF assms(5), of "h - fsize + 2 * fpad"]
  note fw = floor_bounds [OF assms(5), of "w - fsize + 2 * fpad"]
  have two: "(0::int) < 2" by simp
  note ph = floor_bounds [OF two, of "(h - fsize + 2 * fpad) div st + 1 - 2"]
  note pw = floor_bounds [OF two, of "(w - fsize + 2 * fpad) div st + 1 - 2"]
  show ?thesis
    apply (rule exI)
    apply (rule conjI [OF v])
    apply (simp only: dims.simps)
    using fh fw ph pw apply (intro conjI)
    apply assumption+
    apply (rule refl)
    done
qed

text \<open>The amended C3 at stride 2, where the quotient \<open>23 / 2\<close> is floored to 11.\<close>

theorem derive_dims_floor_witness:
  "stride2_conv_param ''filter_num'' = Some 30
   \<and> stride2_conv_param ''filter_size'' = Some 5
   \<and> stride2_conv_param ''pad'' = Some 0
   \<and> stride2_conv_param ''stride'' = Some 2
   \<and> (0::int) < 2
   \<and> (\<exists>d. derive_dims (1, 28, 28) stride2_conv_param = Inr d
        \<and> 2 * (conv_output_height d - 1) \<le> 28 - 5 + 2 * 0
        \<and> 28 - 5 + 2 * 0 < 2 * conv_output_height d
        \<and> pool_output_size d = 30 * pool_output_height d * pool_output_width d)"
  using derive_dims_floor [of stride2_conv_param 30 5 0 2 1 28 28]
  by (simp add: stride2_conv_param_def) blast

section \<open>What the passes over the layers preserve\<close>

text \<open>
  A forward or backward pass changes the cache and the gradients of a layer, never its
  static part; the output of a forward pass depends on the static part, the store and the
  input only.
\<close>

lemma layer_forward_static:
  "static (key, snd (layer_forward ops h l x)) = static (key, l)"
  by (simp add: layer_forward_def static_def case_prod_beta)

lemma layer_backward_static:
  "static (key, snd (layer_backward ops h l x)) = static (key, l)"
  by (simp add: layer_backward_def static_def case_prod_beta split: option.splits)

lemma layer_forward_kind [simp]:
  "kind (snd (layer_forward ops h l x)) = kind l"
  by (simp add: layer_forward_def case_prod_beta)

lemma layer_backward_kind [simp]:
  "kind (snd (layer_backward ops h l x)) = kind l"
  by (simp add: layer_backward_def case_prod_beta split: option.splits)

lemma layer_forward_out:
  "kind l' = kind l \<Longrightarrow> W_ref l' = W_ref l \<Longrightarrow> b_ref l' = b_ref l \<Longrightarrow>
   fst (layer_forward ops h l' x) = fst (layer_forward ops h l x)"
  by (simp add: layer_forward_def case_prod_beta)

lemma layer_forward_again:
  "layer_forward ops h (snd (layer_forward ops h l x)) x = layer_forward ops h l x"
  by (simp add: layer_forward_def case_prod_beta)

lemma forward_layers_static:
  "map static (snd (forward_layers ops h ls x)) = map static ls"
proof (induction ls arbitrary: x)
  case Nil
  show ?case by simp
next
  case (Cons p ls)
  obtain key l where p: "p = (key, l)" by (cases p)
  obtain y l' where f: "layer_forward ops h l x = (y, l')" by (cases "layer_forward ops h l x")
  have "static (key, l') = static (key, l)"
    using layer_forward_static [of key ops h l x] f by simp
  then show ?case
    using Cons.IH [of y] by (simp add: p f case_prod_beta)
qed

lemma backward_layers_static:
  "map static (snd (backward_layers ops h ls d)) = map static ls"
proof (induction ls arbitrary: d)
  case Nil
  show ?case by simp
next
  case (Cons p ls)
  obtain key l where p: "p = (key, l)" by (cases p)
  obtain y l' where f: "layer_backward ops h l d = (y, l')" by (cases "layer_backward ops h l d")
  have "static (key, l') = static (key, l)"
    using layer_backward_static [of key ops h l d] f by simp
  then show ?case
    using Cons.IH [of y] by (simp add: p f case_prod_beta)
qed

lemma forward_layers_out:
  "map static ls' = map static ls \<Longrightarrow>
   fst (forward_layers ops h ls' x) = fst (forward_layers ops h ls x)"
proof (induction ls arbitrary: ls' x)
  case Nil
  then show ?case by simp
next
  case (Cons p ls)
  obtain key l where p: "p = (key, l)" by (cases p)
  from Cons.prems obtain p' ms where ls': "ls' = p' # ms" by (cases ls') auto
  obtain key' l' where p': "p' = (key', l')" by (cases p')
  from Cons.prems have st: "static (key', l') = static (key, l)" and ms: "map static ms = map static ls"
    by (simp_all add: ls' p p')
  from st have eq: "kind l' = kind l" "W_ref l' = W_ref l" "b_ref l' = b_ref l"
    by (simp_all add: static_def)
  have out: "fst (layer_forward ops h l' x) = fst (layer_forward ops h l x)"
    by (rule layer_forward_out [OF eq])
  show ?case
    using Cons.IH [OF ms, of "fst (layer_forward ops h l x)"] out
    by (simp add: ls' p p' case_prod_beta)
qed

lemma forward_layers_again:
  "forward_layers ops h (snd (forward_layers ops h ls x)) x = forward_layers ops h ls x"
proof (induction ls arbitrary: x)
  case Nil
  show ?case by simp
next
  case (Cons p ls)
  obtain key l where p: "p = (key, l)" by (cases p)
  obtain y l' where f: "layer_forward ops h l x = (y, l')" by (cases "layer_forward ops h l x")
  have a: "layer_forward ops h l' x = (y, l')"
    using layer_forward_again [of ops h l x] by (simp add: f)
  obtain z ls' where r: "forward_layers ops h ls y = (z, ls')"
    by (cases "forward_layers ops h ls y")
  have b: "forward_layers ops h ls' y = (z, ls')"
    using Cons.IH [of y] by (simp add: r)
  show ?case by (simp add: p f r a b)
qed

lemma forward_layers_fold:
  "fst (forward_layers ops h ls x)
     = fold (\<lambda>(key, k, w, b) y. forward_fn ops k (deref h w) (deref h b) y) (map static ls) x"
proof (induction ls arbitrary: x)
  case Nil
  show ?case by simp
next
  case (Cons p ls)
  obtain key l where p: "p = (key, l)" by (cases p)
  show ?case
    using Cons.IH [of "fst (layer_forward ops h l x)"]
    by (simp add: p case_prod_beta static_def layer_forward_def forward_fn_def)
qed

lemma predict_frame:
  "heap (snd (predict ops s x)) = heap s"
  "params (snd (predict ops s x)) = params s"
  "last_layer (snd (predict ops s x)) = last_layer s"
  "map static (layers (snd (predict ops s x))) = map static (layers s)"
  using forward_layers_static [of ops "heap s" "layers s" x]
  by (simp_all add: predict_def case_prod_beta)

lemma predict_out:
  assumes "heap s' = heap s" and "map static (layers s') = map static (layers s)"
  shows "fst (predict ops s' x) = fst (predict ops s x)"
  using forward_layers_out [OF assms(2), of ops "heap s" x] assms(1)
  by (simp add: predict_def case_prod_beta)

lemma loss_frame:
  "heap (snd (loss ops s x t)) = heap s"
  "params (snd (loss ops s x t)) = params s"
  "map static (layers (snd (loss ops s x t))) = map static (layers s)"
  using predict_frame [of ops s x]
  by (simp_all add: loss_def case_prod_beta)

lemma gradient_frame:
  "heap (snd (gradient ops s x t)) = heap s"
  "params (snd (gradient ops s x t)) = params s"
  "map static (layers (snd (gradient ops s x t))) = map static (layers s)"
proof -
  obtain l s1 where l: "loss ops s x t = (l, s1)" by (cases "loss ops s x t")
  obtain dx ls where b: "backward_layers ops (heap s1) (rev (layers s1))
                  (loss_backward_of ops (last_layer s1) (Num 1)) = (dx, ls)"
    by (cases "backward_layers ops (heap s1) (rev (layers s1))
                  (loss_backward_of ops (last_layer s1) (Num 1))")
  have g: "snd (gradient ops s x t) = s1\<lparr>layers := rev ls\<rparr>"
    by (simp add: gradient_def l b)
  have s1: "heap s1 = heap s" "params s1 = params s" "map static (layers s1) = map static (layers s)"
    using loss_frame [of ops s x t] by (simp_all add: l)
  have "map static ls = map static (rev (layers s1))"
    using backward_layers_static [of ops "heap s1" "rev (layers s1)"] b
    by (metis snd_conv)
  then have "map static (rev ls) = map static (layers s1)"
    by (simp add: rev_map [symmetric])
  then show "heap (snd (gradient ops s x t)) = heap s"
  "params (snd (gradient ops s x t)) = params s"
  "map static (layers (snd (gradient ops s x t))) = map static (layers s)"
    using s1 by (simp_all add: g)
qed

lemma batch_matches_frame:
  "heap (snd (batch_matches ops s x t b i)) = heap s
   \<and> params (snd (batch_matches ops s x t b i)) = params s
   \<and> map static (layers (snd (batch_matches ops s x t b i))) = map static (layers s)"
proof (cases "and_then (slice0 (i * b) ((i + 1) * b) x) (\<lambda>tx.
           and_then (slice0 (i * b) ((i + 1) * b) t) (\<lambda>tt. Inr (tx, tt)))")
  case (Inl e)
  show ?thesis unfolding batch_matches_def Inl by simp
next
  case (Inr r)
  obtain tx tt where r: "r = (tx, tt)" by (cases r)
  show ?thesis
    unfolding batch_matches_def Inr r using predict_frame [of ops s tx]
    by (simp add: case_prod_beta)
qed

lemma accuracy_loop_frame:
  "heap (snd (accuracy_loop ops x t b is acc s)) = heap s
   \<and> params (snd (accuracy_loop ops x t b is acc s)) = params s
   \<and> map static (layers (snd (accuracy_loop ops x t b is acc s))) = map static (layers s)"
proof (induction "is" arbitrary: acc s)
  case Nil
  show ?case by simp
next
  case (Cons i "is")
  obtain res s' where m: "batch_matches ops s x t b i = (res, s')"
    by (cases "batch_matches ops s x t b i")
  have fr: "heap s' = heap s \<and> params s' = params s
    \<and> map static (layers s') = map static (layers s)"
    using batch_matches_frame [of ops s x t b i] by (simp add: m)
  show ?case
  proof (cases res)
    case (Inl e)
    then show ?thesis using fr by (simp add: m)
  next
    case (Inr c)
    then show ?thesis using fr Cons.IH [of "acc + c" s'] by (simp add: m)
  qed
qed

lemma accuracy_frame:
  "heap (snd (accuracy ops s x t bs)) = heap s
   \<and> params (snd (accuracy ops s x t bs)) = params s
   \<and> map static (layers (snd (accuracy ops s x t bs))) = map static (layers s)"
proof (cases "and_then (if ndim t \<noteq> 1 then argmax_axis1 t else Inr t) (\<lambda>t1.
           and_then (shape0 x) (\<lambda>n.
           and_then (py_int_truediv n bs) (\<lambda>k. Inr (t1, n, k))))")
  case (Inl e)
  show ?thesis unfolding accuracy_def Inl by simp
next
  case (Inr r)
  obtain t1 n k where r: "r = (t1, n, k)" by (cases r)
  obtain res s' where l: "accuracy_loop ops x t1 (nat bs) [0 ..< nat k] 0 s = (res, s')"
    by (cases "accuracy_loop ops x t1 (nat bs) [0 ..< nat k] 0 s")
  have fr: "heap s' = heap s \<and> params s' = params s
    \<and> map static (layers s') = map static (layers s)"
    using accuracy_loop_frame [of ops x t1 "nat bs" "[0 ..< nat k]" 0 s] by (simp add: l)
  show ?thesis
    unfolding accuracy_def Inr r using fr by (cases res) (simp_all add: l)
qed

lemma wired_frame:
  assumes "wired st pd s" and "params s' = params s"
    and "map static (layers s') = map static (layers s)"
  shows "wired st pd s'"
  using assms by (simp add: wired_def)

lemma wired_preserved:
  assumes "wired st pd s"
  shows "wired st pd (snd (predict ops s x))" and "wired st pd (snd (loss ops s x t))"
    and "wired st pd (snd (accuracy ops s x t batch_size))"
    and "wired st pd (snd (gradient ops s x t))"
  using predict_frame [of ops s x] loss_frame [of ops s x t]
    accuracy_frame [of ops s x t batch_size] gradient_frame [of ops s x t]
  by (auto intro: wired_frame [OF assms])

section \<open>The network the constructor builds\<close>

text \<open>
  The constructor establishes the topology \<open>wired\<close>, which the four methods preserve.
\<close>

lemma upt_0_8: "[0 ..< 8] = [0, 1, 2, 3, 4, 5, 6, 7 :: nat]"
  by code_simp

lemma SimpleConvNet_wired:
  assumes "SimpleConvNet draw input_dim conv_param hidden_size output_size = Inr s"
  shows "\<exists>st pd. conv_param ''stride'' = Some st \<and> conv_param ''pad'' = Some pd
           \<and> wired st pd s
           \<and> dom (params s) = {''W1'', ''b1'', ''W2'', ''b2'', ''W3'', ''b3'', ''W4'', ''b4''}
           \<and> last_layer s = None"
proof -
  obtain c h w where i: "input_dim = (c, h, w)" by (cases input_dim) auto
  from assms obtain d where d: "derive_dims input_dim conv_param = Inr d"
    unfolding SimpleConvNet_def by (cases "derive_dims input_dim conv_param") simp_all
  from assms obtain shapes where sh: "param_shapes input_dim d hidden_size output_size = Inr shapes"
    unfolding SimpleConvNet_def d and_then_Inr
    by (cases "param_shapes input_dim d hidden_size output_size") simp_all
  from d obtain st pd where
    sp: "conv_param ''stride'' = Some st" "conv_param ''pad'' = Some pd"
    unfolding i derive_dims_def py_getitem_def and_then_def
    by (auto split: option.splits sum.splits)
  from sh have names: "map fst shapes
      = [''W1'', ''b1'', ''W2'', ''b2'', ''W3'', ''b3'', ''W4'', ''b4'']"
    unfolding i param_shapes_def and_then_def
    by (auto split: sum.splits)
  have s: "s = \<lparr> heap = map_of (zip [0 ..< 8] (map (\<lambda>(name, shape). draw name shape) shapes)),
             params = map_of (zip (map fst shapes) [0 ..< 8]),
             layers =
               [(''Conv1'', new_layer (Convolution st pd) (Some 0) (Some 1)),
                (''Relu1'', new_layer Relu None None),
                (''Pool1'', new_layer (Pooling pool_height pool_width pool_stride) None None),
                (''Affine1'', new_layer Affine (Some 2) (Some 3)),
                (''Relu2'', new_layer Relu None None),
                (''Affine2'', new_layer Affine (Some 4) (Some 5)),
                (''Relu3'', new_layer Relu None None),
                (''Affine3'', new_layer Affine (Some 6) (Some 7))],
             last_layer = None \<rparr>"
    using assms unfolding SimpleConvNet_def d sh and_then_Inr py_getitem_def sp by simp
  have p: "params s = map_of (zip [''W1'', ''b1'', ''W2'', ''b2'', ''W3'', ''b3'', ''W4'', ''b4'']
      [0 ..< 8])"
    by (simp add: s names)
  have w: "wired st pd s"
    unfolding wired_def p upt_0_8 by (simp add: s static_def new_layer_def)
  have dm: "dom (params s) = {''W1'', ''b1'', ''W2'', ''b2'', ''W3'', ''b3'', ''W4'', ''b4''}"
    unfolding p upt_0_8 by (simp add: dom_map_of_conv_image_fst)
  show ?thesis using sp w dm by (simp add: s)
qed

lemma wired_layers:
  assumes "wired st pd s"
  shows "\<exists>l1 l2 l3 l4 l5 l6 l7 l8.
      layers s = [(''Conv1'', l1), (''Relu1'', l2), (''Pool1'', l3), (''Affine1'', l4),
                  (''Relu2'', l5), (''Affine2'', l6), (''Relu3'', l7), (''Affine3'', l8)]
      \<and> kind l1 = Convolution st pd \<and> kind l4 = Affine \<and> kind l6 = Affine \<and> kind l8 = Affine"
  using assms unfolding wired_def static_def
  by (auto simp: map_eq_Cons_conv)

lemma wired_layers_full:
  assumes "wired st pd s"
  shows "\<exists>l1 l2 l3 l4 l5 l6 l7 l8.
      layers s = [(''Conv1'', l1), (''Relu1'', l2), (''Pool1'', l3), (''Affine1'', l4),
                  (''Relu2'', l5), (''Affine2'', l6), (''Relu3'', l7), (''Affine3'', l8)]
      \<and> kind l1 = Convolution st pd
      \<and> kind l2 = Relu \<and> W_ref l2 = None \<and> b_ref l2 = None
      \<and> kind l3 = Pooling pool_height pool_width pool_stride
      \<and> W_ref l3 = None \<and> b_ref l3 = None
      \<and> kind l4 = Affine
      \<and> kind l5 = Relu \<and> W_ref l5 = None \<and> b_ref l5 = None
      \<and> kind l6 = Affine
      \<and> kind l7 = Relu \<and> W_ref l7 = None \<and> b_ref l7 = None
      \<and> kind l8 = Affine"
  using assms unfolding wired_def static_def
  by (auto simp: map_eq_Cons_conv)

lemma demo_net_constructed:
  "SimpleConvNet zero_draw default_input_dim default_conv_param 100 10 = Inr demo_net"
proof -
  have "\<not> isl (SimpleConvNet zero_draw default_input_dim default_conv_param 100 10
               :: py_error + (int, int ndarray) state)"
    by (rule SimpleConvNet_returns [where d = "\<lparr> filter_num = 30, filter_size = 5, filter_pad = 0, filter_stride = 1,
           conv_output_height = 24, conv_output_width = 24,
           pool_output_height = 12, pool_output_width = 12,
           pool_output_size = 4320 \<rparr>"])
      (simp_all add: shape_defs default_input_dim_def default_conv_param_def)
  then show ?thesis
    unfolding demo_net_def by (simp add: sum.collapse(2))
qed

lemma demo_net_wired: "wired 1 0 demo_net"
proof -
  from SimpleConvNet_wired [OF demo_net_constructed] obtain st pd where
    a: "default_conv_param ''stride'' = Some st" "default_conv_param ''pad'' = Some pd"
      "wired st pd demo_net"
    by (elim exE conjE)
  from a(1,2) have "st = 1" "pd = 0" by (simp_all add: default_conv_param_def)
  with a(3) show ?thesis by simp
qed

lemma demo_params_dom:
  "dom (params demo_net) = {''W1'', ''b1'', ''W2'', ''b2'', ''W3'', ''b3'', ''W4'', ''b4''}"
  using SimpleConvNet_wired [OF demo_net_constructed] by (elim exE conjE)

lemma demo_net_layers:
  "layers demo_net =
     [(''Conv1'', new_layer (Convolution 1 0) (Some 0) (Some 1)),
      (''Relu1'', new_layer Relu None None),
      (''Pool1'', new_layer (Pooling 2 2 2) None None),
      (''Affine1'', new_layer Affine (Some 2) (Some 3)),
      (''Relu2'', new_layer Relu None None),
      (''Affine2'', new_layer Affine (Some 4) (Some 5)),
      (''Relu3'', new_layer Relu None None),
      (''Affine3'', new_layer Affine (Some 6) (Some 7))]"
  by (simp add: demo_net_def SimpleConvNet_def shape_defs default_input_dim_def
      default_conv_param_def)

lemma demo_net_snd_layers:
  "map snd (layers demo_net) =
    [new_layer (Convolution 1 0) (Some 0) (Some 1), new_layer Relu None None,
     new_layer (Pooling 2 2 2) None None, new_layer Affine (Some 2) (Some 3),
     new_layer Relu None None, new_layer Affine (Some 4) (Some 5),
     new_layer Relu None None, new_layer Affine (Some 6) (Some 7)]"
  by (simp add: demo_net_layers)

lemma unpickled_net_wired: "wired 1 0 unpickled_net"
  using demo_net_wired by (simp add: wired_def unpickled_net_def)

lemma clamp_twice: "map_ndarray (max (0::int)) (map_ndarray (max 0) x) = map_ndarray (max 0) x"
  by (simp add: ndarray.map_comp comp_def)

lemma demo_predict:
  "fst (predict demo_ops demo_net x) = map_ndarray (max 0) x"
  by (simp add: predict_def demo_net_layers layer_forward_def demo_ops_def new_layer_def
      clamp_twice)

lemma demo_forward:
  "layer_forward demo_ops h l x = (map_ndarray (max 0) x, l\<lparr>cache := Some x\<rparr>)"
  by (simp add: layer_forward_def demo_ops_def)

lemma demo_backward:
  "layer_backward demo_ops h l d = (Arr [d], l\<lparr>dW := Some d, db := Some d\<rparr>)"
  by (simp add: layer_backward_def demo_ops_def)

lemma demo_loss:
  "loss_forward_of demo_ops y t = (Num 0, y)" "loss_backward_of demo_ops c d = d"
  by (simp_all add: demo_ops_def)

lemma stale_net_static:
  "heap stale_net = heap demo_net
   \<and> map static (layers stale_net) = map static (layers demo_net)"
  by (simp add: stale_net_def static_def case_prod_beta comp_def)

lemma demo_forward_fn: "forward_fn demo_ops k w b x = map_ndarray (max 0) x"
  by (simp add: forward_fn_def demo_ops_def)

section \<open>predict and loss\<close>

text \<open>
  C5.  On a network with the constructor's topology, \<^verbatim>\<open>predict\<close> returns the
  composition of the forward functions of Convolution, Relu, Pooling, Affine, Relu, Affine,
  Relu and Affine, in this order, each parameterised layer reading the arrays that
  \<^verbatim>\<open>self.params\<close> holds under its names; no loss layer is applied.  \<^verbatim>\<open>loss\<close> returns
  the forward of the loss layer on these scores and the labels.
\<close>

theorem predict_composition:
  assumes "wired st pd s"
  shows "fst (predict ops s x) =
     forward_fn ops Affine (param_value s ''W4'') (param_value s ''b4'')
      (forward_fn ops Relu None None
       (forward_fn ops Affine (param_value s ''W3'') (param_value s ''b3'')
        (forward_fn ops Relu None None
         (forward_fn ops Affine (param_value s ''W2'') (param_value s ''b2'')
          (forward_fn ops (Pooling 2 2 2) None None
           (forward_fn ops Relu None None
            (forward_fn ops (Convolution st pd) (param_value s ''W1'') (param_value s ''b1'')
               x)))))))
   \<and> fst (loss ops s x t) = fst (loss_forward_of ops (fst (predict ops s x)) t)"
proof -
  have "fst (predict ops s x) = fst (forward_layers ops (heap s) (layers s) x)"
    by (simp add: predict_def case_prod_beta)
  moreover have "fst (loss ops s x t) = fst (loss_forward_of ops (fst (predict ops s x)) t)"
    by (simp add: loss_def case_prod_beta)
  ultimately show ?thesis
    using assms
    by (simp add: forward_layers_fold wired_def param_value_def deref_def
        pool_height_def pool_width_def pool_stride_def)
qed

text \<open>
  C5 on the network built from the default arguments, with layers that clamp at zero.
\<close>

theorem predict_composition_witness:
  "wired 1 0 demo_net
   \<and> fst (predict demo_ops demo_net (Arr [Arr [Num 3, Num (- 4)], Arr [Num (- 1), Num 5]]))
       = Arr [Arr [Num 3, Num 0], Arr [Num 0, Num 5]]
   \<and> fst (loss demo_ops demo_net (Arr [Arr [Num 3, Num (- 4)], Arr [Num (- 1), Num 5]])
            (Arr [Num 0, Num 1])) = Num 0"
  using predict_composition [OF demo_net_wired, of demo_ops
      "Arr [Arr [Num 3, Num (- 4)], Arr [Num (- 1), Num 5]]" "Arr [Num 0, Num 1]"]
    demo_net_wired
  by (simp add: demo_forward_fn demo_loss)

text \<open>
  C10.  A second call of \<^verbatim>\<open>predict\<close> on the same input returns the same output as the
  first and leaves the state as the first left it; more generally the output depends on
  the store of parameter arrays, on the static part of the layers and on the input only,
  so the caches, the stored gradients and the loss layer have no influence on it.
\<close>

theorem predict_idempotent:
  "predict ops (snd (predict ops s x)) x = predict ops s x
   \<and> (\<forall>s'. heap s' = heap s \<and> map static (layers s') = map static (layers s)
          \<longrightarrow> fst (predict ops s' x) = fst (predict ops s x))"
proof -
  obtain y ls where f: "forward_layers ops (heap s) (layers s) x = (y, ls)"
    by (cases "forward_layers ops (heap s) (layers s) x")
  have "forward_layers ops (heap s) ls x = (y, ls)"
    using forward_layers_again [of ops "heap s" "layers s" x] by (simp add: f)
  then have "predict ops (snd (predict ops s x)) x = predict ops s x"
    by (simp add: predict_def f)
  then show ?thesis using predict_out [of _ s ops x] by blast
qed

text \<open>
  C10 on the default network: both calls return the input clamped at zero, and so does a
  call on the network whose layers hold other caches and gradients.
\<close>

theorem predict_idempotent_witness:
  "predict demo_ops (snd (predict demo_ops demo_net (Arr [Arr [Num 3, Num (- 4)]])))
       (Arr [Arr [Num 3, Num (- 4)]])
     = predict demo_ops demo_net (Arr [Arr [Num 3, Num (- 4)]])
   \<and> heap stale_net = heap demo_net
   \<and> map static (layers stale_net) = map static (layers demo_net)
   \<and> layers stale_net \<noteq> layers demo_net
   \<and> fst (predict demo_ops stale_net (Arr [Arr [Num 3, Num (- 4)]])) = Arr [Arr [Num 3, Num 0]]"
proof -
  note th = predict_idempotent [of demo_ops demo_net "Arr [Arr [Num 3, Num (- 4)]]"]
  note a = th [THEN conjunct1]
  note b = th [THEN conjunct2, rule_format, OF stale_net_static]
  have c: "layers stale_net \<noteq> layers demo_net"
    by (simp add: stale_net_def demo_net_layers new_layer_def)
  have d: "fst (predict demo_ops stale_net (Arr [Arr [Num 3, Num (- 4)]]))
      = Arr [Arr [Num 3, Num 0]]"
    unfolding b by (simp add: demo_predict)
  show ?thesis
    by (intro conjI)
      (fact a stale_net_static [THEN conjunct1] stale_net_static [THEN conjunct2] c d)+
qed

section \<open>gradient\<close>

text \<open>
  C1.  On a network with the constructor's topology, \<^verbatim>\<open>gradient\<close> runs the forward
  pass of the eight layers in insertion order and of the loss layer, so that every layer
  holds the cache of this pass; it gives the gradient 1 to the backward pass of the loss
  layer, then runs the backward pass of the layers in the reverse order, each on the
  gradient the layer after it returned; and it returns a new dictionary whose keys are
  exactly \<^verbatim>\<open>W1\<close>, \<^verbatim>\<open>b1\<close>, ..., \<^verbatim>\<open>W4\<close>, \<^verbatim>\<open>b4\<close>, bound to the \<^verbatim>\<open>dW\<close> and
  \<^verbatim>\<open>db\<close> of the convolution and of the three affine layers after that pass.
\<close>

theorem gradient_backprop:
  assumes "wired st pd s"
    and "map snd (layers s) = [l1, l2, l3, l4, l5, l6, l7, l8]"
  shows "let h = heap s;
             (a1, l1a) = layer_forward ops h l1 x;
             (a2, l2a) = layer_forward ops h l2 a1;
             (a3, l3a) = layer_forward ops h l3 a2;
             (a4, l4a) = layer_forward ops h l4 a3;
             (a5, l5a) = layer_forward ops h l5 a4;
             (a6, l6a) = layer_forward ops h l6 a5;
             (a7, l7a) = layer_forward ops h l7 a6;
             (a8, l8a) = layer_forward ops h l8 a7;
             (lv, c) = loss_forward_of ops a8 t;
             d8 = loss_backward_of ops (Some c) (Num 1);
             (d7, l8b) = layer_backward ops h l8a d8;
             (d6, l7b) = layer_backward ops h l7a d7;
             (d5, l6b) = layer_backward ops h l6a d6;
             (d4, l5b) = layer_backward ops h l5a d5;
             (d3, l4b) = layer_backward ops h l4a d4;
             (d2, l3b) = layer_backward ops h l3a d3;
             (d1, l2b) = layer_backward ops h l2a d2;
             (d0, l1b) = layer_backward ops h l1a d1;
             g = [''W1'' \<mapsto> dW l1b, ''b1'' \<mapsto> db l1b, ''W2'' \<mapsto> dW l4b, ''b2'' \<mapsto> db l4b,
                  ''W3'' \<mapsto> dW l6b, ''b3'' \<mapsto> db l6b, ''W4'' \<mapsto> dW l8b, ''b4'' \<mapsto> db l8b]
         in gradient ops s x t =
              (Inr g,
               s\<lparr>layers := [(''Conv1'', l1b), (''Relu1'', l2b), (''Pool1'', l3b),
                            (''Affine1'', l4b), (''Relu2'', l5b), (''Affine2'', l6b),
                            (''Relu3'', l7b), (''Affine3'', l8b)],
                 last_layer := Some c\<rparr>)
            \<and> dom g = {''W1'', ''b1'', ''W2'', ''b2'', ''W3'', ''b3'', ''W4'', ''b4''}"
proof -
  from wired_layers [OF assms(1)] assms(2) have
    ls: "layers s = [(''Conv1'', l1), (''Relu1'', l2), (''Pool1'', l3), (''Affine1'', l4),
                  (''Relu2'', l5), (''Affine2'', l6), (''Relu3'', l7), (''Affine3'', l8)]"
    and k: "kind l1 = Convolution st pd" "kind l4 = Affine" "kind l6 = Affine" "kind l8 = Affine"
    by auto
  have d: "dom [''W1'' \<mapsto> w1, ''b1'' \<mapsto> b1, ''W2'' \<mapsto> w2, ''b2'' \<mapsto> b2,
                ''W3'' \<mapsto> w3, ''b3'' \<mapsto> b3, ''W4'' \<mapsto> w4, ''b4'' \<mapsto> b4]
         = {''W1'', ''b1'', ''W2'', ''b2'', ''W3'', ''b3'', ''W4'', ''b4''}"
    for w1 b1 w2 b2 w3 b3 w4 b4 :: "'a ndarray option"
    by (simp only: dom_fun_upd dom_empty option.distinct if_False) blast
  show ?thesis
    unfolding Let_def case_prod_beta d
    unfolding gradient_def loss_def predict_def ls
    by (simp add: case_prod_beta collect_grads_def layer_grads_def py_getitem_def k
        has_grads_def)
qed

text \<open>
  C1 on the default network, whose parameter mapping has the same eight keys.  Every
  backward pass of the sample layers wraps its gradient once, so the nesting of an entry
  counts the layers that ran before the layer of the entry: none for \<^verbatim>\<open>W4\<close>, seven
  for \<^verbatim>\<open>W1\<close>.
\<close>

theorem gradient_backprop_witness:
  "wired 1 0 demo_net
   \<and> map fst (layers demo_net) = [''Conv1'', ''Relu1'', ''Pool1'', ''Affine1'', ''Relu2'',
        ''Affine2'', ''Relu3'', ''Affine3'']
   \<and> dom (params demo_net) = {''W1'', ''b1'', ''W2'', ''b2'', ''W3'', ''b3'', ''W4'', ''b4''}
   \<and> fst (gradient demo_ops demo_net (Arr [Arr [Num 1, Num 2]]) (Arr [Num 0]))
       = Inr [''W1'' \<mapsto> Some (Arr [Arr [Arr [Arr [Arr [Arr [Arr [Num 1]]]]]]]),
              ''b1'' \<mapsto> Some (Arr [Arr [Arr [Arr [Arr [Arr [Arr [Num 1]]]]]]]),
              ''W2'' \<mapsto> Some (Arr [Arr [Arr [Arr [Num 1]]]]),
              ''b2'' \<mapsto> Some (Arr [Arr [Arr [Arr [Num 1]]]]),
              ''W3'' \<mapsto> Some (Arr [Arr [Num 1]]), ''b3'' \<mapsto> Some (Arr [Arr [Num 1]]),
              ''W4'' \<mapsto> Some (Num 1), ''b4'' \<mapsto> Some (Num 1)]"
proof -
  note th = gradient_backprop [OF demo_net_wired demo_net_snd_layers,
      of demo_ops "Arr [Arr [Num 1, Num 2]]" "Arr [Num 0]"]
  note ev = th [unfolded demo_forward demo_backward demo_loss,
      simplified Let_def prod.case]
  have n: "map fst (layers demo_net) = [''Conv1'', ''Relu1'', ''Pool1'', ''Affine1'', ''Relu2'',
        ''Affine2'', ''Relu3'', ''Affine3'']"
    by (simp add: demo_net_layers)
  from ev have g: "fst (gradient demo_ops demo_net (Arr [Arr [Num 1, Num 2]]) (Arr [Num 0]))
       = Inr [''W1'' \<mapsto> Some (Arr [Arr [Arr [Arr [Arr [Arr [Arr [Num 1]]]]]]]),
              ''b1'' \<mapsto> Some (Arr [Arr [Arr [Arr [Arr [Arr [Arr [Num 1]]]]]]]),
              ''W2'' \<mapsto> Some (Arr [Arr [Arr [Arr [Num 1]]]]),
              ''b2'' \<mapsto> Some (Arr [Arr [Arr [Arr [Num 1]]]]),
              ''W3'' \<mapsto> Some (Arr [Arr [Num 1]]), ''b3'' \<mapsto> Some (Arr [Arr [Num 1]]),
              ''W4'' \<mapsto> Some (Num 1), ''b4'' \<mapsto> Some (Num 1)]"
    by simp
  show ?thesis
    by (intro conjI) (fact demo_net_wired n demo_params_dom g)+
qed

section \<open>The parameters are not written\<close>

text \<open>
  C7.  \<^verbatim>\<open>predict\<close>, \<^verbatim>\<open>loss\<close>, \<^verbatim>\<open>accuracy\<close> and \<^verbatim>\<open>gradient\<close> leave the store of
  parameter arrays and the parameter mapping as they were, and leave every layer bound to
  the same weight and bias: they change the caches and the attributes \<^verbatim>\<open>dW\<close> and
  \<^verbatim>\<open>db\<close> of the layers only.
\<close>

theorem parameters_unchanged:
  "heap (snd (predict ops s x)) = heap s \<and> params (snd (predict ops s x)) = params s
   \<and> map static (layers (snd (predict ops s x))) = map static (layers s)
   \<and> heap (snd (loss ops s x t)) = heap s \<and> params (snd (loss ops s x t)) = params s
   \<and> map static (layers (snd (loss ops s x t))) = map static (layers s)
   \<and> heap (snd (accuracy ops s x t batch_size)) = heap s
   \<and> params (snd (accuracy ops s x t batch_size)) = params s
   \<and> map static (layers (snd (accuracy ops s x t batch_size))) = map static (layers s)
   \<and> heap (snd (gradient ops s x t)) = heap s \<and> params (snd (gradient ops s x t)) = params s
   \<and> map static (layers (snd (gradient ops s x t))) = map static (layers s)"
  using predict_frame [of ops s x] loss_frame [of ops s x t]
    accuracy_frame [of ops s x t batch_size] gradient_frame [of ops s x t]
  by simp

section \<open>The number of chunks\<close>

text \<open>
  Rounding to the nearest integer stays within one half, and never crosses an integer.
\<close>

lemma round_half_even_floor: "\<lfloor>m\<rfloor> \<le> round_half_even m"
  by (simp add: round_half_even_def Let_def)

lemma round_half_even_upper: "of_int (round_half_even m) \<le> m + 1 / 2"
proof -
  have f: "of_int \<lfloor>m\<rfloor> \<le> m" by (rule of_int_floor_le)
  consider "m - of_int \<lfloor>m\<rfloor> < 1 / 2" | "1 / 2 \<le> m - of_int \<lfloor>m\<rfloor>" by linarith
  then show ?thesis
  proof cases
    case 1
    then have "round_half_even m = \<lfloor>m\<rfloor>" by (simp add: round_half_even_def)
    then have "(of_int (round_half_even m) :: rat) = of_int \<lfloor>m\<rfloor>" by simp
    then show ?thesis using f by linarith
  next
    case 2
    have "round_half_even m \<le> \<lfloor>m\<rfloor> + 1" by (simp add: round_half_even_def Let_def)
    then have "(of_int (round_half_even m) :: rat) \<le> of_int (\<lfloor>m\<rfloor> + 1)"
      by (simp only: of_int_le_iff)
    then show ?thesis using 2 by simp
  qed
qed

lemma round_half_even_ge: "of_int j \<le> m \<Longrightarrow> j \<le> round_half_even m"
proof -
  assume "of_int j \<le> m"
  then have "j \<le> \<lfloor>m\<rfloor>" by (simp add: le_floor_iff)
  then show ?thesis using round_half_even_floor [of m] by simp
qed

lemma round_half_even_le:
  assumes "m \<le> of_int j"
  shows "round_half_even m \<le> j"
proof (cases "m = of_int j")
  case True
  then show ?thesis by (simp add: round_half_even_def)
next
  case False
  with assms have "m < of_int j" by simp
  then have "\<lfloor>m\<rfloor> < j" by (simp add: floor_less_iff)
  then have "\<lfloor>m\<rfloor> + 1 \<le> j" by simp
  moreover have "round_half_even m \<le> \<lfloor>m\<rfloor> + 1"
    by (simp add: round_half_even_def Let_def)
  ultimately show ?thesis by simp
qed

text \<open>\<open>ilog2 q\<close> is the exponent of the power of two at or below \<open>q\<close>.\<close>

lemma ilog2_bounds:
  assumes "0 < q"
  shows "2 powi ilog2 q \<le> q" and "q < 2 powi (ilog2 q + 1)"
proof -
  have "2 powi ilog2 q \<le> q \<and> q < 2 powi (ilog2 q + 1)"
  proof (cases "1 \<le> q")
    case True
    define n where "n = \<lfloor>q\<rfloor>"
    have n: "0 < n" using True by (simp add: n_def)
    from bitlen_bounds [OF n] have lo: "2 ^ nat (bitlen n - 1) \<le> n" and hi: "n < 2 ^ nat (bitlen n)"
      by simp_all
    have bl: "0 < bitlen n"
    proof (rule ccontr)
      assume "\<not> 0 < bitlen n"
      then have "nat (bitlen n) = 0" by simp
      then show False using hi n by simp
    qed
    have e: "ilog2 q = bitlen n - 1" using True by (simp add: ilog2_def n_def)
    have "(2::rat) powi (bitlen n - 1) = 2 ^ nat (bitlen n - 1)"
      using bl by (simp add: power_int_def)
    also have "\<dots> = of_int (2 ^ nat (bitlen n - 1))" by simp
    also have "\<dots> \<le> of_int n" using lo by (simp only: of_int_le_iff)
    also have "\<dots> \<le> q" by (simp add: n_def)
    finally have a: "2 powi ilog2 q \<le> q" by (simp add: e)
    have "n + 1 \<le> 2 ^ nat (bitlen n)" using hi by simp
    then have "(of_int (n + 1) :: rat) \<le> of_int (2 ^ nat (bitlen n))" by (simp only: of_int_le_iff)
    moreover have "q < of_int (n + 1)" using floor_correct [of q] by (simp add: n_def)
    ultimately have "q < of_int (2 ^ nat (bitlen n))" by simp
    also have "\<dots> = 2 powi (bitlen n)" using bl by (simp add: power_int_def)
    finally have b: "q < 2 powi (ilog2 q + 1)" by (simp add: e)
    from a b show ?thesis ..
  next
    case False
    define r where "r = 1 / q"
    define c where "c = \<lceil>r\<rceil>"
    define m where "m = c - 1"
    have q1: "q < 1" using False by simp
    have r1: "1 < r" using assms q1 by (simp add: r_def)
    have "1 < c" using r1 by (simp add: c_def less_ceiling_iff)
    then have m: "0 < m" by (simp add: m_def)
    from bitlen_bounds [OF m] have lo: "2 ^ nat (bitlen m - 1) \<le> m" and hi: "m < 2 ^ nat (bitlen m)"
      by simp_all
    have bl: "0 < bitlen m"
    proof (rule ccontr)
      assume "\<not> 0 < bitlen m"
      then have "nat (bitlen m) = 0" by simp
      then show False using hi m by simp
    qed
    have e: "ilog2 q = - bitlen m" using False by (simp add: ilog2_def m_def c_def r_def)
    have "c \<le> 2 ^ nat (bitlen m)" using hi by (simp add: m_def)
    then have "(of_int c :: rat) \<le> of_int (2 ^ nat (bitlen m))" by (simp only: of_int_le_iff)
    also have "(of_int (2 ^ nat (bitlen m)) :: rat) = 2 ^ nat (bitlen m)" by simp
    finally have cc: "(of_int c :: rat) \<le> 2 ^ nat (bitlen m)" .
    have "r \<le> of_int c" by (simp add: c_def)
    then have "r \<le> 2 ^ nat (bitlen m)" using cc by (rule order_trans)
    then have "1 / q \<le> 2 ^ nat (bitlen m)" by (simp add: r_def)
    then have "1 \<le> 2 ^ nat (bitlen m) * q" using assms by (simp add: pos_divide_le_eq)
    then have "1 / 2 ^ nat (bitlen m) \<le> q" by (simp add: pos_divide_le_eq mult.commute)
    moreover have "(2::rat) powi (- bitlen m) = 1 / 2 ^ nat (bitlen m)"
      using bl by (simp add: power_int_def field_simps)
    ultimately have a: "2 powi ilog2 q \<le> q" by (simp add: e)
    have "(2::rat) ^ nat (bitlen m - 1) = of_int (2 ^ nat (bitlen m - 1))" by simp
    also have "\<dots> \<le> of_int m" using lo by (simp only: of_int_le_iff)
    also have "of_int m < r" unfolding m_def c_def by linarith
    finally have "2 ^ nat (bitlen m - 1) < 1 / q" by (simp only: r_def)
    then have "2 ^ nat (bitlen m - 1) * q < 1" using assms by (simp add: pos_less_divide_eq)
    then have "q < 1 / 2 ^ nat (bitlen m - 1)" by (simp add: pos_less_divide_eq mult.commute)
    moreover have "(2::rat) powi (- bitlen m + 1) = 1 / 2 ^ nat (bitlen m - 1)"
    proof -
      have "- bitlen m + 1 = - int (nat (bitlen m - 1))" using bl by simp
      then have "(2::rat) powi (- bitlen m + 1) = 2 powi (- int (nat (bitlen m - 1)))" by simp
      also have "\<dots> = 1 / 2 ^ nat (bitlen m - 1)"
        by (simp only: power_int_minus power_int_of_nat inverse_eq_divide)
      finally show ?thesis .
    qed
    ultimately have b: "q < 2 powi (ilog2 q + 1)" by (simp add: e)
    from a b show ?thesis ..
  qed
  then show "2 powi ilog2 q \<le> q" and "q < 2 powi (ilog2 q + 1)" by simp_all
qed

lemma powi_two_pos: "0 < (2::rat) powi u"
  by (simp add: power_int_def)

text \<open>
  The quotient \<open>q\<close> of \<open>n < 2^53\<close> by \<open>b > 0\<close> is rounded to a double that truncates to
  \<open>n div b\<close>.  The integer \<open>n div b\<close> is a double, so the rounding does not go below it;
  the rounding adds at most \<open>q / 2^53\<close>, which is less than \<open>1 / b\<close>, and \<open>q\<close> is at
  least \<open>1 / b\<close> below the next integer.
\<close>

lemma nearest_double_floor:
  fixes n b :: nat
  assumes n: "n < 2 ^ 53" and b: "0 < b"
  shows "\<exists>d. nearest_double (of_nat n / of_nat b) = Inr d \<and> \<lfloor>d\<rfloor> = int (n div b)"
proof (cases "n = 0")
  case True
  then show ?thesis by (simp add: nearest_double_def)
next
  case False
  define q :: rat where "q = of_nat n / of_nat b"
  define k where "k = n div b"
  define u where "u = max (ilog2 q - 52) (- 1074)"
  define p :: rat where "p = 2 powi u"
  define r :: rat where "r = of_int (round_half_even (q / p)) * p"
  have q0: "0 < q" using False b by (simp add: q_def)
  have p0: "0 < p" unfolding p_def by (rule powi_two_pos)
  have bq: "of_nat b * q = of_nat n" using b by (simp add: q_def)
  have nkb: "n = k * b + n mod b" by (simp add: k_def)
  have kq: "of_nat k \<le> q"
  proof -
    have "k * b \<le> n" using nkb by simp
    then have "(of_nat (k * b) :: rat) \<le> of_nat n" by (simp only: of_nat_le_iff)
    then have "of_nat k * of_nat b \<le> (of_nat n :: rat)" by simp
    then show ?thesis using b by (simp add: q_def pos_le_divide_eq)
  qed
  have qk: "q \<le> of_nat k + 1 - 1 / of_nat b"
  proof -
    have "n mod b < b" using b by simp
    then have "n mod b + 1 \<le> b" by simp
    then have "n + 1 \<le> k * b + b" using nkb by linarith
    then have "(of_nat (n + 1) :: rat) \<le> of_nat (k * b + b)" by (simp only: of_nat_le_iff)
    then have "(of_nat n :: rat) \<le> (of_nat k + 1) * of_nat b - 1" by (simp add: algebra_simps)
    then have "(of_nat n :: rat) / of_nat b \<le> ((of_nat k + 1) * of_nat b - 1) / of_nat b"
      using b by (simp add: divide_right_mono)
    also have "\<dots> = of_nat k + 1 - 1 / of_nat b" using b by (simp add: field_simps)
    finally show ?thesis by (simp add: q_def)
  qed
  have qn: "q \<le> of_nat n"
  proof -
    have "(1::rat) \<le> of_nat b" using b by simp
    then have "(of_nat n :: rat) / of_nat b \<le> of_nat n / 1"
      by (intro divide_left_mono) simp_all
    then show ?thesis by (simp add: q_def)
  qed
  have e53: "ilog2 q < 53"
  proof -
    have "2 powi ilog2 q \<le> q" by (rule ilog2_bounds(1) [OF q0])
    also have "q \<le> of_nat n" by (rule qn)
    also have "(of_nat n :: rat) < of_nat (2 ^ 53)" using n by (simp only: of_nat_less_iff)
    also have "(of_nat (2 ^ 53) :: rat) = 2 powi 53" by simp
    finally have "(2::rat) powi ilog2 q < 2 powi 53" .
    then show ?thesis by (rule power_int_le_imp_less_exp [rotated]) simp_all
  qed
  then have u0: "u \<le> 0" by (simp add: u_def)
  have pP: "p * 2 ^ nat (- u) = 1"
  proof -
    have "u = - int (nat (- u))" using u0 by simp
    then have "p = 2 powi (- int (nat (- u)))" by (simp add: p_def)
    also have "\<dots> = 1 / 2 ^ nat (- u)"
      by (simp only: power_int_minus power_int_of_nat inverse_eq_divide)
    finally show ?thesis by simp
  qed
  have dp: "x / p = x * 2 ^ nat (- u)" for x
  proof -
    have "x / p = x * (p * 2 ^ nat (- u)) / p" by (simp only: pP mult_1_right)
    also have "\<dots> = x * 2 ^ nat (- u)" using p0 by simp
    finally show ?thesis .
  qed
  have lower: "of_nat k \<le> r"
  proof -
    have "of_nat k / p \<le> q / p" using kq p0 by (simp add: divide_right_mono)
    moreover have "of_nat k / p = of_int (int k * 2 ^ nat (- u))"
      by (simp add: dp)
    ultimately have "int k * 2 ^ nat (- u) \<le> round_half_even (q / p)"
      by (intro round_half_even_ge) simp
    then have "(of_int (int k * 2 ^ nat (- u)) :: rat) \<le> of_int (round_half_even (q / p))"
      by (simp only: of_int_le_iff)
    then have "of_int (int k * 2 ^ nat (- u)) * p \<le> r"
      unfolding r_def using p0 by (simp only: mult_le_cancel_right_pos)
    moreover have "of_int (int k * 2 ^ nat (- u)) * p = of_nat k * (p * 2 ^ nat (- u))"
      by simp
    ultimately show ?thesis by (simp only: pP mult_1_right)
  qed
  have upper: "r < of_nat k + 1"
  proof (cases "- 1074 \<le> ilog2 q - 52")
    case True
    then have u: "u = ilog2 q - 52" by (simp add: u_def)
    have "p * 2 ^ 52 = 2 powi (u + 52)"
      by (simp add: p_def power_int_add)
    also have "\<dots> = 2 powi ilog2 q" by (simp add: u)
    also have "\<dots> \<le> q" by (rule ilog2_bounds(1) [OF q0])
    finally have pq: "p * 2 ^ 52 \<le> q" .
    have "r \<le> (q / p + 1 / 2) * p"
      unfolding r_def using round_half_even_upper [of "q / p"] p0
      by (simp only: mult_le_cancel_right_pos)
    also have "\<dots> = q + p / 2" using p0 by (simp add: field_simps)
    also have "\<dots> \<le> q + q / 2 ^ 53" using pq by simp
    finally have rq: "r \<le> q + q / 2 ^ 53" .
    have "of_nat b * (q / 2 ^ 53) = (of_nat n :: rat) / 2 ^ 53" using bq by simp
    also have "\<dots> < 1"
    proof -
      have "(of_nat n :: rat) < of_nat (2 ^ 53)" using n by (simp only: of_nat_less_iff)
      then show ?thesis by simp
    qed
    finally have "of_nat b * (q / 2 ^ 53) < 1" .
    then have "q / 2 ^ 53 < 1 / of_nat b" using b by (simp add: pos_less_divide_eq mult.commute)
    then show ?thesis using rq qk by linarith
  next
    case False
    then have u: "u = - 1074" and e: "ilog2 q + 1 \<le> - 1022" by (simp_all add: u_def)
    define lo :: rat where "lo = 2 powi (- 1022)"
    have "q < 2 powi (ilog2 q + 1)" by (rule ilog2_bounds(2) [OF q0])
    also have "\<dots> \<le> lo" unfolding lo_def using e by (intro power_int_increasing) simp_all
    finally have q2: "q \<le> lo" by simp
    have d1: "- 1022 - u = 52" and d2: "52 + u = - 1022" using u by simp_all
    have t52: "(2::rat) powi 52 = of_int (2 ^ 52)" by simp
    have "q / p \<le> lo / p" using q2 p0 by (intro divide_right_mono) simp_all
    also have "lo / p = 2 powi (- 1022 - u)"
      unfolding lo_def p_def by (rule power_int_diff [symmetric]) simp
    also have "\<dots> = of_int (2 ^ 52)" unfolding d1 by (rule t52)
    finally have "round_half_even (q / p) \<le> 2 ^ 52" by (rule round_half_even_le)
    then have "(of_int (round_half_even (q / p)) :: rat) \<le> of_int (2 ^ 52)"
      by (simp only: of_int_le_iff)
    then have "r \<le> of_int (2 ^ 52) * p"
      unfolding r_def using p0 by (simp only: mult_le_cancel_right_pos)
    also have "of_int (2 ^ 52) * p = 2 powi 52 * 2 powi u" by (simp only: t52 p_def)
    also have "\<dots> = 2 powi (52 + u)" by (rule power_int_add [symmetric]) simp
    also have "\<dots> = lo" by (simp only: d2 lo_def)
    also have "lo < 2 powi 0" unfolding lo_def by (rule power_int_strict_increasing) simp_all
    finally have "r < 1" by simp
    then show ?thesis by (simp add: add_strict_increasing2)
  qed
  have fl: "\<lfloor>r\<rfloor> = int k"
  proof -
    have "of_int (int k) \<le> r" using lower by simp
    moreover have "r < of_int (int k) + 1" using upper by simp
    ultimately show ?thesis by (simp only: floor_unique)
  qed
  have small: "\<not> 2 ^ 1024 \<le> r"
  proof -
    have "k \<le> n" by (simp add: k_def)
    then have "(of_nat k :: rat) \<le> of_nat n" by (simp only: of_nat_le_iff)
    moreover have "(of_nat n :: rat) < of_nat (2 ^ 53)" using n by (simp only: of_nat_less_iff)
    ultimately have "r < 2 ^ 53 + 1" using upper by simp
    moreover have "(2::rat) ^ 53 + 1 \<le> 2 ^ 1024" by simp
    ultimately show ?thesis by linarith
  qed
  have "nearest_double q = Inr r"
    using q0 small unfolding nearest_double_def u_def [symmetric]
    by (simp add: Let_def p_def [symmetric] r_def [symmetric])
  then show ?thesis using fl by (simp add: q_def k_def)
qed

lemma py_int_truediv_floor:
  assumes "n < 2 ^ 53" and "0 < b"
  shows "py_int_truediv n b = Inr (int n div b)"
proof -
  define m where "m = nat b"
  have b: "b = int m" "0 < m" using assms(2) by (simp_all add: m_def)
  from nearest_double_floor [OF assms(1) b(2)] obtain d where
    d: "nearest_double (of_nat n / of_nat m) = Inr d" and f: "\<lfloor>d\<rfloor> = int (n div m)"
    by blast
  have "py_int_truediv n (int m) = Inr (int (n div m))"
    using b(2) d f by (simp add: py_int_truediv_def)
  then show ?thesis by (simp add: b(1) zdiv_int)
qed

text \<open>
  From \<open>2^53\<close> samples on the truncated quotient can exceed the integer quotient:
  \<open>(2^54 - 1) / 2^54\<close> lies halfway between the doubles \<open>1 - 2^-53\<close> and 1, and is
  rounded to 1.
\<close>

lemma ilog2_unique:
  assumes "0 < q" and "2 powi e \<le> q" and "q < 2 powi (e + 1)"
  shows "ilog2 q = e"
proof -
  note a = ilog2_bounds [OF assms(1)]
  have "\<not> e + 1 \<le> ilog2 q"
  proof
    assume "e + 1 \<le> ilog2 q"
    then have "(2::rat) powi (e + 1) \<le> 2 powi ilog2 q" by (intro power_int_increasing) simp_all
    then show False using a(1) assms(3) by linarith
  qed
  moreover have "\<not> ilog2 q + 1 \<le> e"
  proof
    assume "ilog2 q + 1 \<le> e"
    then have "(2::rat) powi (ilog2 q + 1) \<le> 2 powi e" by (intro power_int_increasing) simp_all
    then show False using a(2) assms(2) by linarith
  qed
  ultimately show ?thesis by linarith
qed

lemma round_half_even_tie:
  "round_half_even (of_int j + 1 / 2) = (if even j then j else j + 1)"
proof -
  have "\<lfloor>(of_int j :: rat) + 1 / 2\<rfloor> = j" by (rule floor_unique) simp_all
  then show ?thesis by (simp add: round_half_even_def)
qed

lemma py_int_truediv_rounds_up: "py_int_truediv (2 ^ 54 - 1) (2 ^ 54) = Inr 1"
proof -
  define q :: rat where "q = 1 - 1 / 2 ^ 54"
  have q0: "0 < q" by (simp add: q_def)
  have "ilog2 q = - 1"
    by (rule ilog2_unique [OF q0]) (simp_all add: q_def power_int_def)
  then have u: "max (ilog2 q - 52) (- 1074) = - 53" by simp
  have "q / 2 powi (- 53) = of_int (2 ^ 53 - 1) + 1 / 2"
    by (simp add: q_def power_int_def power_divide)
  then have "round_half_even (q / 2 powi (- 53)) = 2 ^ 53"
    by (simp only: round_half_even_tie) simp
  then have "of_int (round_half_even (q / 2 powi (- 53))) * 2 powi (- 53) = (1::rat)"
    by (simp add: power_int_def power_divide)
  then have nd: "nearest_double q = Inr 1"
    using q0 by (simp add: nearest_double_def u)
  have e: "of_nat (2 ^ 54 - 1) / of_int \<bar>2 ^ 54\<bar> = q" by (simp add: q_def)
  show ?thesis by (simp only: py_int_truediv_def e nd) simp
qed

section \<open>accuracy\<close>

text \<open>
  \<open>argmax\<close> returns the index of the first occurrence of the maximum, as
  \<^verbatim>\<open>np.argmax\<close> does.
\<close>

lemma argmax_from_first_max:
  assumes "\<forall>j < length done. done ! j \<le> best" and "bi < length done" and "done ! bi = best"
    and "\<forall>j < bi. done ! j < best"
  shows "argmax_from best bi (length done) vs < length (done @ vs)
     \<and> (\<forall>j < length (done @ vs). (done @ vs) ! j \<le> (done @ vs) ! argmax_from best bi (length done) vs)
     \<and> (\<forall>j < argmax_from best bi (length done) vs.
           (done @ vs) ! j < (done @ vs) ! argmax_from best bi (length done) vs)"
  using assms
proof (induction vs arbitrary: best bi "done")
  case Nil
  then show ?case by simp
next
  case (Cons v vs)
  show ?case
  proof (cases "best < v")
    case True
    have a: "\<forall>j < length (done @ [v]). (done @ [v]) ! j \<le> v"
      using Cons.prems(1) True by (auto simp: nth_append less_Suc_eq)
    have b: "length done < length (done @ [v])" by simp
    have c: "(done @ [v]) ! length done = v" by simp
    have d: "\<forall>j < length done. (done @ [v]) ! j < v"
      using Cons.prems(1) True by (auto simp: nth_append)
    from Cons.IH [OF a b c d] True show ?thesis by simp
  next
    case False
    have a: "\<forall>j < length (done @ [v]). (done @ [v]) ! j \<le> best"
      using Cons.prems(1) False by (auto simp: nth_append less_Suc_eq)
    have b: "bi < length (done @ [v])" using Cons.prems(2) by simp
    have c: "(done @ [v]) ! bi = best" using Cons.prems(2,3) by (simp add: nth_append)
    have d: "\<forall>j < bi. (done @ [v]) ! j < best"
      using Cons.prems(2,4) by (auto simp: nth_append)
    from Cons.IH [OF a b c d] False show ?thesis by simp
  qed
qed

lemma argmax_first_max:
  assumes "argmax xs = Inr k"
  shows "k < length xs \<and> (\<forall>j < length xs. xs ! j \<le> xs ! k) \<and> (\<forall>j < k. xs ! j < xs ! k)"
proof -
  from assms obtain v vs where xs: "xs = v # vs" by (cases xs) auto
  with assms have k: "k = argmax_from v 0 (length [v]) vs" by simp
  show ?thesis
    using argmax_from_first_max [of "[v]" v 0 vs] unfolding k xs by simp
qed

text \<open>
  The argmax along the first axis of a row of numbers is the \<open>argmax\<close> of these numbers:
  on a matrix, \<^verbatim>\<open>np.argmax(a, axis=1)\<close> holds one such index for each row.
\<close>

lemma vector_of_numbers: "vector_of (Arr (map Num vs)) = Some vs"
  by (simp add: list_all_iff comp_def)

lemma argmax_axis0_vector:
  "argmax_axis0 (Arr (map Num (v # vs))) = Inr (Num (of_nat (argmax_from v 0 1 vs)))"
proof -
  have "vector_of (Arr (Num v # map Num vs)) = Some (v # vs)"
    using vector_of_numbers [of "v # vs"] by simp
  then show ?thesis by (simp del: vector_of.simps)
qed

lemma zip_filter_index:
  assumes "length xs = length ys"
  shows "length (filter (\<lambda>(a, b). a = b) (zip xs ys))
       = length (filter (\<lambda>j. xs ! j = ys ! j) [0 ..< length xs])"
proof -
  have z: "zip xs ys = map (\<lambda>j. (xs ! j, ys ! j)) [0 ..< length xs]"
    using assms by (intro nth_equalityI) simp_all
  have "filter (\<lambda>(a, b). a = b) (map (\<lambda>j. (xs ! j, ys ! j)) [0 ..< length xs])
      = map (\<lambda>j. (xs ! j, ys ! j)) (filter (\<lambda>j. xs ! j = ys ! j) [0 ..< length xs])"
    by (simp add: filter_map comp_def)
  then show ?thesis by (simp add: z)
qed

lemma vector_of_Arr:
  "vector_of y = Some cs \<Longrightarrow> \<exists>rs. y = Arr rs \<and> list_all (\<lambda>r. num_of r \<noteq> None) rs
     \<and> cs = map (\<lambda>r. the (num_of r)) rs"
  by (cases y) (auto split: if_splits)

lemma vector_of_slice:
  assumes "vector_of t = Some lv"
  shows "\<exists>tt. slice0 i j t = Inr tt \<and> vector_of tt = Some (take (j - i) (drop i lv))"
proof -
  from vector_of_Arr [OF assms] obtain rs where
    t: "t = Arr rs" and a: "list_all (\<lambda>r. num_of r \<noteq> None) rs"
    and lv: "lv = map (\<lambda>r. the (num_of r)) rs" by blast
  have "set (take (j - i) (drop i rs)) \<subseteq> set rs"
    by (meson set_take_subset set_drop_subset subset_trans)
  with a have "list_all (\<lambda>r. num_of r \<noteq> None) (take (j - i) (drop i rs))"
    by (auto simp: list_all_iff)
  then show ?thesis
    by (simp add: t lv take_map drop_map)
qed

lemma vector_rows:
  assumes "vector_of y = Some cs"
  shows "y = Arr (map Num cs)"
proof -
  from vector_of_Arr [OF assms] obtain rs where
    y: "y = Arr rs" and a: "list_all (\<lambda>r. num_of r \<noteq> None) rs"
    and cs: "cs = map (\<lambda>r. the (num_of r)) rs" by blast
  have n: "Num (the (num_of r)) = r" if "num_of r \<noteq> None" for r :: "'a ndarray"
    using that by (cases r) simp_all
  have "Num (the (num_of r)) = r" if "r \<in> set rs" for r
  proof -
    from a that have "num_of r \<noteq> None" unfolding list_all_iff by (rule bspec)
    then show ?thesis by (rule n)
  qed
  then have "map Num cs = rs" unfolding cs by (simp add: map_idI)
  then show ?thesis by (simp add: y)
qed

lemma np_shape_vector: "np_shape (Arr (map Num cs)) = [length cs]"
  by (cases cs) simp_all

lemma ndim_vector: "ndim (Arr (map Num cs)) = Suc 0"
  by (cases cs) simp_all

lemma eq_count_numbers:
  assumes "length cs = length ls"
  shows "sum_list (map (\<lambda>(x, y). eq_count 0 x y) (zip (map Num cs) (map Num ls)))
       = length (filter (\<lambda>(a, b). a = b) (zip cs ls))"
  using assms by (induction cs ls rule: list_induct2) simp_all

lemma count_equal_vectors:
  assumes "vector_of y = Some cs" and "vector_of tt = Some ls" and "length cs = length ls"
  shows "count_equal y tt = Inr (length (filter (\<lambda>j. cs ! j = ls ! j) [0 ..< length cs]))"
proof -
  have y: "y = Arr (map Num cs)" by (rule vector_rows [OF assms(1)])
  have tt: "tt = Arr (map Num ls)" by (rule vector_rows [OF assms(2)])
  have "eq_count (Suc 0) y tt = length (filter (\<lambda>(a, b). a = b) (zip cs ls))"
    unfolding y tt eq_count.simps Let_def ndim_vector
    using assms(3) eq_count_numbers [OF assms(3)] by simp
  then show ?thesis
    unfolding count_equal_def using assms(3) zip_filter_index [OF assms(3)]
    by (simp add: y tt np_shape_vector ndim_vector)
qed

lemma predicted_classes_argmax:
  assumes "predicted_classes ops s tx = Inr cs"
  shows "\<exists>y'. argmax_axis1 (fst (predict ops s tx)) = Inr y' \<and> vector_of y' = Some cs"
  using assms unfolding predicted_classes_def and_then_def
  by (auto split: sum.splits option.splits)

lemma batch_matches_value:
  assumes fr: "heap s' = heap s" "map static (layers s') = map static (layers s)"
    and lv: "vector_of t1 = Some lv"
    and pc: "predicted_classes ops s (Arr (chunk b i xs)) = Inr cs"
    and len: "length cs = b"
    and le: "(i + 1) * b \<le> length lv"
  shows "fst (batch_matches ops s' (Arr xs) t1 b i)
       = Inr (length (filter (\<lambda>j. cs ! j = lv ! (i * b + j)) [0 ..< b]))"
proof -
  have d: "(i + 1) * b - i * b = b" by simp
  have sx: "slice0 (i * b) ((i + 1) * b) (Arr xs) = Inr (Arr (chunk b i xs))"
    unfolding slice0.simps d chunk_def ..
  from vector_of_slice [OF lv, of "i * b" "(i + 1) * b"] obtain tt where
    st: "slice0 (i * b) ((i + 1) * b) t1 = Inr tt"
    and vt: "vector_of tt = Some (take b (drop (i * b) lv))"
    unfolding d by blast
  from predicted_classes_argmax [OF pc] obtain y' where
    am: "argmax_axis1 (fst (predict ops s (Arr (chunk b i xs)))) = Inr y'"
    and vy: "vector_of y' = Some cs" by blast
  have po: "fst (predict ops s' (Arr (chunk b i xs))) = fst (predict ops s (Arr (chunk b i xs)))"
    by (rule predict_out [OF fr])
  have ll: "length cs = length (take b (drop (i * b) lv))"
    using len le by simp
  have ce: "count_equal y' tt
    = Inr (length (filter (\<lambda>j. cs ! j = take b (drop (i * b) lv) ! j) [0 ..< length cs]))"
    by (rule count_equal_vectors [OF vy vt ll])
  have fl: "filter (\<lambda>j. cs ! j = take b (drop (i * b) lv) ! j) [0 ..< b]
          = filter (\<lambda>j. cs ! j = lv ! (i * b + j)) [0 ..< b]"
    using le by (intro filter_cong) simp_all
  have "fst (batch_matches ops s' (Arr xs) t1 b i) = count_equal y' tt"
    unfolding batch_matches_def sx st and_then_Inr
    by (simp add: case_prod_beta po am)
  then show ?thesis using ce fl len by simp
qed

lemma accuracy_loop_sum:
  assumes "\<And>i s'. i \<in> set is \<Longrightarrow> heap s' = heap s
             \<Longrightarrow> map static (layers s') = map static (layers s)
             \<Longrightarrow> fst (batch_matches ops s' x t b i) = Inr (c i)"
    and "heap s0 = heap s" and "map static (layers s0) = map static (layers s)"
  shows "fst (accuracy_loop ops x t b is acc s0) = Inr (acc + sum_list (map c is))"
  using assms
proof (induction "is" arbitrary: acc s0)
  case Nil
  show ?case by simp
next
  case (Cons i "is")
  obtain res s1 where m: "batch_matches ops s0 x t b i = (res, s1)"
    by (cases "batch_matches ops s0 x t b i")
  have "fst (batch_matches ops s0 x t b i) = Inr (c i)"
    by (rule Cons.prems(1)) (simp_all add: Cons.prems)
  then have res: "res = Inr (c i)" by (simp add: m)
  have fr: "heap s1 = heap s" "map static (layers s1) = map static (layers s)"
    using batch_matches_frame [of ops s0 x t b i] Cons.prems(2,3) by (simp_all add: m)
  have "fst (accuracy_loop ops x t b is (acc + c i) s1)
      = Inr (acc + c i + sum_list (map c is))"
    by (rule Cons.IH [OF _ fr]) (simp_all add: Cons.prems(1))
  then show ?case by (simp add: m res add.assoc)
qed

text \<open>
  C4.  For a batch size \<open>b > 0\<close> and \<open>N\<close> samples, \<open>0 < N < 2^53\<close>, \<^verbatim>\<open>accuracy\<close>
  takes as labels the array \<open>t\<close> itself when it is one-dimensional and its row-wise argmax
  otherwise; it predicts the \<open>N div b\<close> chunks of rows \<open>i * b\<close> to \<open>(i + 1) * b - 1\<close>,
  counts in each chunk the rows whose predicted class equals the label of the row, and
  returns the sum of these counts divided by \<open>N\<close>.  The rows from \<open>(N div b) * b\<close> on are
  in no chunk.  The labels are \<open>N\<close> numbers, and each chunk is scored with one class per
  row.  The bound on \<open>N\<close> is that below which the double \<^verbatim>\<open>N / batch_size\<close> truncates
  to \<open>N div b\<close>.
\<close>

theorem accuracy_chunks:
  fixes xs :: "'a::linordered_idom ndarray list"
  assumes b: "0 < b"
    and ne: "xs \<noteq> []"
    and n53: "length xs < 2 ^ 53"
    and t1: "(ndim t = 1 \<and> t1 = t) \<or> (ndim t \<noteq> 1 \<and> argmax_axis1 t = Inr t1)"
    and lv: "vector_of t1 = Some lv"
    and ll: "length lv = length xs"
    and pc: "\<forall>i < length xs div b.
               predicted_classes ops s (Arr (chunk b i xs)) = Inr (cls i)
               \<and> length (cls i) = b"
  shows "fst (accuracy ops s (Arr xs) t (int b))
       = Inr (of_nat (\<Sum>i\<leftarrow>[0 ..< length xs div b].
                        length (filter (\<lambda>j. cls i ! j = lv ! (i * b + j)) [0 ..< b]))
              / of_nat (length xs))"
proof -
  let ?n = "length xs"
  let ?c = "\<lambda>i. length (filter (\<lambda>j. cls i ! j = lv ! (i * b + j)) [0 ..< b])"
  have k: "py_int_truediv ?n (int b) = Inr (int (?n div b))"
    using py_int_truediv_floor [OF n53, of "int b"] b by (simp add: zdiv_int)
  have pre: "and_then (if ndim t \<noteq> 1 then argmax_axis1 t else Inr t) (\<lambda>t1.
           and_then (shape0 (Arr xs)) (\<lambda>n.
           and_then (py_int_truediv n (int b)) (\<lambda>k. Inr (t1, n, k))))
         = Inr (t1, ?n, int (?n div b))"
    using t1 by (auto simp: k)
  have step: "fst (batch_matches ops s' (Arr xs) t1 b i) = Inr (?c i)"
    if "i \<in> set [0 ..< ?n div b]" and "heap s' = heap s"
      and "map static (layers s') = map static (layers s)" for i s'
  proof -
    from that(1) have i: "i < ?n div b" by simp
    then have "Suc i \<le> ?n div b" by simp
    then have "Suc i * b \<le> (?n div b) * b" by (rule mult_le_mono1)
    also have "\<dots> \<le> ?n" by simp
    finally have le: "(i + 1) * b \<le> length lv" by (simp add: ll)
    from pc i have p: "predicted_classes ops s (Arr (chunk b i xs)) = Inr (cls i)"
      and l: "length (cls i) = b" by simp_all
    show ?thesis by (rule batch_matches_value [OF that(2,3) lv p l le])
  qed
  have loop: "fst (accuracy_loop ops (Arr xs) t1 b [0 ..< ?n div b] 0 s)
            = Inr (0 + sum_list (map ?c [0 ..< ?n div b]))"
    by (rule accuracy_loop_sum [OF step]) simp_all
  obtain res s' where r: "accuracy_loop ops (Arr xs) t1 b [0 ..< ?n div b] 0 s = (res, s')"
    by (cases "accuracy_loop ops (Arr xs) t1 b [0 ..< ?n div b] 0 s")
  from loop have res: "res = Inr (sum_list (map ?c [0 ..< ?n div b]))" by (simp add: r)
  show ?thesis
    unfolding accuracy_def pre using ne by (simp add: r res)
qed

lemma less_2_cases': "i < (2::nat) \<Longrightarrow> i = 0 \<or> i = 1" by auto

text \<open>
  C4 on five samples with one-hot labels and batch size 2: two chunks, three matches in
  them, the fifth sample (a match) dropped, accuracy \<open>3 / 5\<close>.
\<close>

theorem accuracy_chunks_witness:
  "(0::nat) < 2 \<and> demo_xs \<noteq> [] \<and> length demo_xs < 2 ^ 53
   \<and> ndim demo_onehot \<noteq> 1
   \<and> argmax_axis1 demo_onehot = Inr (Arr [Num 0, Num 1, Num 1, Num 1, Num 1])
   \<and> fst (accuracy demo_ops demo_net (Arr demo_xs) demo_onehot 2) = Inr (3 / 5)"
proof -
  let ?t1 = "Arr [Num 0, Num 1, Num 1, Num 1, Num (1::int)]"
  let ?lv = "[0, 1, 1, 1, 1::int]"
  let ?cls = "\<lambda>i::nat. if i = 0 then [0, 1::int] else [0, 1]"
  have nd: "ndim demo_onehot \<noteq> 1" by (simp add: demo_onehot_def)
  have am: "argmax_axis1 demo_onehot = Inr ?t1" by (simp add: demo_onehot_def)
  have h3: "(ndim demo_onehot = 1 \<and> ?t1 = demo_onehot)
      \<or> (ndim demo_onehot \<noteq> 1 \<and> argmax_axis1 demo_onehot = Inr ?t1)"
    using nd am by simp
  have h4: "vector_of ?t1 = Some ?lv" by simp
  have h5: "length ?lv = length demo_xs" by (simp add: demo_xs_def)
  have c0: "predicted_classes demo_ops demo_net (Arr (chunk 2 0 demo_xs)) = Inr [0, 1]"
    by (simp add: predicted_classes_def demo_predict chunk_def demo_xs_def)
  have c1: "predicted_classes demo_ops demo_net (Arr (chunk 2 1 demo_xs)) = Inr [0, 1]"
    by (simp add: predicted_classes_def demo_predict chunk_def demo_xs_def)
  have d: "length demo_xs div 2 = 2" by (simp add: demo_xs_def)
  have h6: "\<forall>i < length demo_xs div 2.
      predicted_classes demo_ops demo_net (Arr (chunk 2 i demo_xs)) = Inr (?cls i)
      \<and> length (?cls i) = 2"
    unfolding d using c0 c1 by (auto dest: less_2_cases')
  have ne: "demo_xs \<noteq> []" by (simp add: demo_xs_def)
  have n53: "length demo_xs < 2 ^ 53" by (simp add: demo_xs_def)
  have "fst (accuracy demo_ops demo_net (Arr demo_xs) demo_onehot (int 2))
      = Inr (of_nat (\<Sum>i\<leftarrow>[0 ..< length demo_xs div 2].
            length (filter (\<lambda>j. ?cls i ! j = ?lv ! (i * 2 + j)) [0 ..< 2]))
          / of_nat (length demo_xs))"
    by (rule accuracy_chunks [OF _ ne n53 h3 h4 h5 h6]) simp
  also have "(\<Sum>i\<leftarrow>[0 ..< length demo_xs div 2].
            length (filter (\<lambda>j. ?cls i ! j = ?lv ! (i * 2 + j)) [0 ..< 2])) = 3"
    unfolding d by (simp add: upt_rec)
  finally show ?thesis using nd am ne n53 by (simp add: demo_xs_def)
qed

text \<open>
  C8, as stated, fails for a batch without samples, which has fewer samples than the
  batch size: the loop does not run, \<^verbatim>\<open>acc\<close> is the Python float \<^verbatim>\<open>0.0\<close>, and
  \<^verbatim>\<open>0.0 / 0\<close> raises \<^verbatim>\<open>ZeroDivisionError\<close>.  It fails as well for a label array
  that has no axis 1, where \<^verbatim>\<open>np.argmax(t, axis=1)\<close> raises before the loop.
\<close>

theorem accuracy_empty_counterexample:
  "fst (accuracy demo_ops demo_net (Arr []) (Arr []) 100) = Inl ZeroDivisionError
   \<and> fst (accuracy demo_ops demo_net (Arr [Arr [Num 1, Num 0]]) (Num 0) 100) = Inl ValueError"
  by (simp add: accuracy_def py_int_truediv_floor)

text \<open>
  C8, amended.  For every batch with at least one sample, fewer than \<open>2^53\<close> samples and
  fewer samples than the batch size, and every label array that is one-dimensional or has
  an argmax along the axis 1, \<^verbatim>\<open>accuracy\<close> returns exactly 0, whatever the network
  predicts: it calls \<^verbatim>\<open>predict\<close> not at all and leaves the state as it was.
\<close>

theorem accuracy_short_batch:
  fixes xs :: "'a::linordered_idom ndarray list"
  assumes ne: "xs \<noteq> []"
    and n53: "length xs < 2 ^ 53"
    and lt: "int (length xs) < batch_size"
    and t: "ndim t = 1 \<or> \<not> isl (argmax_axis1 t)"
  shows "accuracy ops s (Arr xs) t batch_size = (Inr 0, s)"
proof -
  have "\<exists>t1. (if ndim t \<noteq> 1 then argmax_axis1 t else Inr t) = Inr t1"
    using t by (cases "argmax_axis1 t") auto
  then obtain t1 where t1: "(if ndim t \<noteq> 1 then argmax_axis1 t else Inr t) = Inr t1" ..
  have pos: "0 < batch_size" using lt by simp
  have "int (length xs) div batch_size = 0"
    using lt by (simp add: div_pos_pos_trivial)
  then have k: "py_int_truediv (length xs) batch_size = Inr 0"
    using py_int_truediv_floor [OF n53 pos] by simp
  have pre: "and_then (if ndim t \<noteq> 1 then argmax_axis1 t else Inr t) (\<lambda>t1.
           and_then (shape0 (Arr xs)) (\<lambda>n.
           and_then (py_int_truediv n batch_size) (\<lambda>k. Inr (t1, n, k))))
         = Inr (t1, length xs, 0)"
    unfolding t1 by (simp add: k)
  show ?thesis
    unfolding accuracy_def pre using ne by simp
qed

text \<open>
  The amended C8 on one sample with the default batch size 100, for a one-dimensional
  label array and for one of three dimensions, whose argmax along the axis 1 is a matrix.
\<close>

theorem accuracy_short_batch_witness:
  "[Arr [Num (1::int), Num 0]] \<noteq> []
   \<and> length [Arr [Num (1::int), Num 0]] < 2 ^ 53
   \<and> int (length [Arr [Num (1::int), Num 0]]) < 100
   \<and> ndim (Arr [Num (0::int)]) = 1
   \<and> accuracy demo_ops demo_net (Arr [Arr [Num 1, Num 0]]) (Arr [Num 0]) 100
       = (Inr 0, demo_net)
   \<and> ndim demo_labels3 = 3
   \<and> argmax_axis1 demo_labels3 = Inr (Arr [Arr [Num 1, Num 0]])
   \<and> accuracy demo_ops demo_net (Arr [Arr [Num 1, Num 0]]) demo_labels3 100
       = (Inr 0, demo_net)"
proof -
  have am: "argmax_axis1 demo_labels3 = Inr (Arr [Arr [Num 1, Num 0]])"
    by (simp add: demo_labels3_def)
  have a: "accuracy demo_ops demo_net (Arr [Arr [Num 1, Num 0]]) (Arr [Num 0]) 100
       = (Inr 0, demo_net)"
    by (rule accuracy_short_batch) simp_all
  have b: "accuracy demo_ops demo_net (Arr [Arr [Num 1, Num 0]]) demo_labels3 100
       = (Inr 0, demo_net)"
    by (rule accuracy_short_batch) (simp_all add: am)
  show ?thesis using a b am by (simp add: demo_labels3_def)
qed

section \<open>load_params\<close>

lemma py_str_digits:
  "py_str 1 = ''1''" "py_str 2 = ''2''" "py_str 3 = ''3''" "py_str 4 = ''4''"
  by (simp_all add: py_str.simps digit_char_def)

lemma fold_update_lookup:
  "fold (\<lambda>(k, v) m. m(k \<mapsto> v)) kvs m k
     = (case map_of (rev kvs) k of None \<Rightarrow> m k | Some v \<Rightarrow> Some v)"
proof (induction kvs arbitrary: m)
  case Nil
  show ?case by simp
next
  case (Cons p kvs)
  obtain k0 v0 where p: "p = (k0, v0)" by (cases p)
  have "fold (\<lambda>(k, v) m. m(k \<mapsto> v)) (p # kvs) m k
      = fold (\<lambda>(k, v) m. m(k \<mapsto> v)) kvs (m(k0 \<mapsto> v0)) k"
    by (simp add: p)
  also have "\<dots> = (case map_of (rev kvs) k of None \<Rightarrow> (m(k0 \<mapsto> v0)) k | Some v \<Rightarrow> Some v)"
    by (rule Cons.IH)
  also have "\<dots> = (case map_of (rev (p # kvs)) k of None \<Rightarrow> m k | Some v \<Rightarrow> Some v)"
    by (simp add: p map_add_def split: option.splits)
  finally show ?case .
qed

lemma map_of_rev_distinct:
  "distinct (map fst kvs) \<Longrightarrow> map_of (rev kvs) = map_of kvs"
proof (induction kvs)
  case Nil
  show ?case by simp
next
  case (Cons p kvs)
  obtain k0 v0 where p: "p = (k0, v0)" by (cases p)
  from Cons.prems have n: "map_of kvs k0 = None"
    by (simp add: p map_of_eq_None_iff)
  from Cons have ih: "map_of (rev kvs) = map_of kvs" by simp
  show ?case
    using n by (auto simp: p ih map_add_def fun_eq_iff split: option.splits)
qed

lemma fold_update_distinct:
  assumes "distinct (map fst kvs)"
  shows "fold (\<lambda>(k, v) m. m(k \<mapsto> v)) kvs m = m ++ map_of kvs"
  using fold_update_lookup [of kvs m] map_of_rev_distinct [OF assms]
  by (simp add: fun_eq_iff map_add_def)

lemma set_layer_hit:
  "key \<in> set (map fst ls) \<Longrightarrow>
   set_layer key f ls = Inr (map (\<lambda>(k, l). if k = key then (k, f l) else (k, l)) ls)"
  by (simp add: set_layer_def)

lemma rebind_step:
  assumes "py_getitem ps (''W'' @ py_str (i + 1)) = Inr w"
    and "py_getitem ps (''b'' @ py_str (i + 1)) = Inr b"
    and "key \<in> set (map fst ls)"
  shows "rebind ps ((i, key) # rest) ls
       = rebind ps rest
           (map (\<lambda>(k, l). if k = key then (k, l\<lparr>W_ref := Some w, b_ref := Some b\<rparr>) else (k, l)) ls)"
proof -
  let ?ls1 = "map (\<lambda>(k, l). if k = key then (k, l\<lparr>W_ref := Some w\<rparr>) else (k, l)) ls"
  have k1: "key \<in> set (map fst ?ls1)"
    using assms(3) by (force simp: image_iff split: if_splits)
  have m: "map (\<lambda>(k, l). if k = key then (k, l\<lparr>b_ref := Some b\<rparr>) else (k, l)) ?ls1
    = map (\<lambda>(k, l). if k = key then (k, l\<lparr>W_ref := Some w, b_ref := Some b\<rparr>) else (k, l)) ls"
    by (simp add: case_prod_beta)
  show ?thesis
    unfolding rebind.simps assms(1,2) and_then_Inr set_layer_hit [OF assms(3)]
      set_layer_hit [OF k1] m ..
qed

text \<open>
  C9.  When the loaded dictionary has the eight keys, \<^verbatim>\<open>load_params\<close> returns, the
  parameter mapping holds the loaded references under these keys (and under any other key
  of the file), the convolution and the three affine layers hold the very references
  loaded for \<^verbatim>\<open>W1\<close>, \<^verbatim>\<open>b1\<close>, ..., \<^verbatim>\<open>W4\<close>, \<^verbatim>\<open>b4\<close>, and a forward pass after
  it reads the arrays stored at these references.
\<close>

theorem load_params_rebinds:
  assumes w: "wired st pd s"
    and d: "distinct (map fst loaded)"
    and l: "map_of loaded ''W1'' = Some w1" "map_of loaded ''b1'' = Some b1"
      "map_of loaded ''W2'' = Some w2" "map_of loaded ''b2'' = Some b2"
      "map_of loaded ''W3'' = Some w3" "map_of loaded ''b3'' = Some b3"
      "map_of loaded ''W4'' = Some w4" "map_of loaded ''b4'' = Some b4"
  shows "\<exists>s'. load_params s loaded = Inr s'
     \<and> heap s' = heap s
     \<and> params s' = params s ++ map_of loaded
     \<and> map static (layers s') =
         [(''Conv1'', Convolution st pd, Some w1, Some b1),
          (''Relu1'', Relu, None, None),
          (''Pool1'', Pooling 2 2 2, None, None),
          (''Affine1'', Affine, Some w2, Some b2),
          (''Relu2'', Relu, None, None),
          (''Affine2'', Affine, Some w3, Some b3),
          (''Relu3'', Relu, None, None),
          (''Affine3'', Affine, Some w4, Some b4)]
     \<and> fst (predict ops s' x) =
         forward_fn ops Affine (heap s w4) (heap s b4)
          (forward_fn ops Relu None None
           (forward_fn ops Affine (heap s w3) (heap s b3)
            (forward_fn ops Relu None None
             (forward_fn ops Affine (heap s w2) (heap s b2)
              (forward_fn ops (Pooling 2 2 2) None None
               (forward_fn ops Relu None None
                (forward_fn ops (Convolution st pd) (heap s w1) (heap s b1) x)))))))"
proof -
  from wired_layers_full [OF w] obtain l1 l2 l3 l4 l5 l6 l7 l8 where
    ls: "layers s = [(''Conv1'', l1), (''Relu1'', l2), (''Pool1'', l3), (''Affine1'', l4),
                  (''Relu2'', l5), (''Affine2'', l6), (''Relu3'', l7), (''Affine3'', l8)]"
    and k: "kind l1 = Convolution st pd"
      "kind l2 = Relu" "W_ref l2 = None" "b_ref l2 = None"
      "kind l3 = Pooling pool_height pool_width pool_stride" "W_ref l3 = None" "b_ref l3 = None"
      "kind l4 = Affine"
      "kind l5 = Relu" "W_ref l5 = None" "b_ref l5 = None"
      "kind l6 = Affine"
      "kind l7 = Relu" "W_ref l7 = None" "b_ref l7 = None"
      "kind l8 = Affine"
    by blast
  define ps where "ps = params s ++ map_of loaded"
  have ps: "fold (\<lambda>(key, val) m. m(key \<mapsto> val)) loaded (params s) = ps"
    unfolding ps_def by (rule fold_update_distinct [OF d])
  have g: "py_getitem ps ''W1'' = Inr w1" "py_getitem ps ''b1'' = Inr b1"
    "py_getitem ps ''W2'' = Inr w2" "py_getitem ps ''b2'' = Inr b2"
    "py_getitem ps ''W3'' = Inr w3" "py_getitem ps ''b3'' = Inr b3"
    "py_getitem ps ''W4'' = Inr w4" "py_getitem ps ''b4'' = Inr b4"
    using l by (simp_all add: ps_def py_getitem_def)
  have en: "enumerate 0 [''Conv1'', ''Affine1'', ''Affine2'', ''Affine3'']
      = [(0, ''Conv1''), (1, ''Affine1''), (2, ''Affine2''), (3, ''Affine3'')]"
    by simp
  have e: "(0::nat) + 1 = 1" "(1::nat) + 1 = 2" "(2::nat) + 1 = 3" "(3::nat) + 1 = 4"
    by simp_all
  have pk: "py_str (0 + 1) = ''1''" "py_str (1 + 1) = ''2''" "py_str (2 + 1) = ''3''"
    "py_str (3 + 1) = ''4''"
    unfolding e by (rule py_str_digits)+
  have gk: "py_getitem ps (''W'' @ py_str (0 + 1)) = Inr w1"
    "py_getitem ps (''b'' @ py_str (0 + 1)) = Inr b1"
    "py_getitem ps (''W'' @ py_str (1 + 1)) = Inr w2"
    "py_getitem ps (''b'' @ py_str (1 + 1)) = Inr b2"
    "py_getitem ps (''W'' @ py_str (2 + 1)) = Inr w3"
    "py_getitem ps (''b'' @ py_str (2 + 1)) = Inr b3"
    "py_getitem ps (''W'' @ py_str (3 + 1)) = Inr w4"
    "py_getitem ps (''b'' @ py_str (3 + 1)) = Inr b4"
    unfolding pk using g by simp_all
  let ?l1 = "l1\<lparr>W_ref := Some w1, b_ref := Some b1\<rparr>"
  let ?l4 = "l4\<lparr>W_ref := Some w2, b_ref := Some b2\<rparr>"
  let ?l6 = "l6\<lparr>W_ref := Some w3, b_ref := Some b3\<rparr>"
  let ?l8 = "l8\<lparr>W_ref := Some w4, b_ref := Some b4\<rparr>"
  have r1: "rebind ps [(0, ''Conv1''), (1, ''Affine1''), (2, ''Affine2''), (3, ''Affine3'')]
      [(''Conv1'', l1), (''Relu1'', l2), (''Pool1'', l3), (''Affine1'', l4),
       (''Relu2'', l5), (''Affine2'', l6), (''Relu3'', l7), (''Affine3'', l8)]
    = rebind ps [(1, ''Affine1''), (2, ''Affine2''), (3, ''Affine3'')]
      [(''Conv1'', ?l1), (''Relu1'', l2), (''Pool1'', l3), (''Affine1'', l4),
       (''Relu2'', l5), (''Affine2'', l6), (''Relu3'', l7), (''Affine3'', l8)]"
    by (rule trans [OF rebind_step [OF gk(1,2)]]) (simp_all del: rebind.simps)
  have r2: "rebind ps [(1, ''Affine1''), (2, ''Affine2''), (3, ''Affine3'')]
      [(''Conv1'', ?l1), (''Relu1'', l2), (''Pool1'', l3), (''Affine1'', l4),
       (''Relu2'', l5), (''Affine2'', l6), (''Relu3'', l7), (''Affine3'', l8)]
    = rebind ps [(2, ''Affine2''), (3, ''Affine3'')]
      [(''Conv1'', ?l1), (''Relu1'', l2), (''Pool1'', l3), (''Affine1'', ?l4),
       (''Relu2'', l5), (''Affine2'', l6), (''Relu3'', l7), (''Affine3'', l8)]"
    by (rule trans [OF rebind_step [OF gk(3,4)]]) (simp_all del: rebind.simps)
  have r3: "rebind ps [(2, ''Affine2''), (3, ''Affine3'')]
      [(''Conv1'', ?l1), (''Relu1'', l2), (''Pool1'', l3), (''Affine1'', ?l4),
       (''Relu2'', l5), (''Affine2'', l6), (''Relu3'', l7), (''Affine3'', l8)]
    = rebind ps [(3, ''Affine3'')]
      [(''Conv1'', ?l1), (''Relu1'', l2), (''Pool1'', l3), (''Affine1'', ?l4),
       (''Relu2'', l5), (''Affine2'', ?l6), (''Relu3'', l7), (''Affine3'', l8)]"
    by (rule trans [OF rebind_step [OF gk(5,6)]]) (simp_all del: rebind.simps)
  have r4: "rebind ps [(3, ''Affine3'')]
      [(''Conv1'', ?l1), (''Relu1'', l2), (''Pool1'', l3), (''Affine1'', ?l4),
       (''Relu2'', l5), (''Affine2'', ?l6), (''Relu3'', l7), (''Affine3'', l8)]
    = Inr [(''Conv1'', ?l1), (''Relu1'', l2), (''Pool1'', l3), (''Affine1'', ?l4),
       (''Relu2'', l5), (''Affine2'', ?l6), (''Relu3'', l7), (''Affine3'', ?l8)]"
    by (rule trans [OF rebind_step [OF gk(7,8)]]) simp_all
  have rb: "rebind ps (enumerate 0 [''Conv1'', ''Affine1'', ''Affine2'', ''Affine3''])
      (layers s)
    = Inr [(''Conv1'', l1\<lparr>W_ref := Some w1, b_ref := Some b1\<rparr>), (''Relu1'', l2),
           (''Pool1'', l3), (''Affine1'', l4\<lparr>W_ref := Some w2, b_ref := Some b2\<rparr>),
           (''Relu2'', l5), (''Affine2'', l6\<lparr>W_ref := Some w3, b_ref := Some b3\<rparr>),
           (''Relu3'', l7), (''Affine3'', l8\<lparr>W_ref := Some w4, b_ref := Some b4\<rparr>)]"
    unfolding en ls r1 r2 r3 r4 ..
  define s' where "s' = s\<lparr>params := ps,
     layers := [(''Conv1'', l1\<lparr>W_ref := Some w1, b_ref := Some b1\<rparr>), (''Relu1'', l2),
           (''Pool1'', l3), (''Affine1'', l4\<lparr>W_ref := Some w2, b_ref := Some b2\<rparr>),
           (''Relu2'', l5), (''Affine2'', l6\<lparr>W_ref := Some w3, b_ref := Some b3\<rparr>),
           (''Relu3'', l7), (''Affine3'', l8\<lparr>W_ref := Some w4, b_ref := Some b4\<rparr>)]\<rparr>"
  have lp: "load_params s loaded = Inr s'"
    unfolding load_params_def ps Let_def rb s'_def by simp
  have st: "map static (layers s') =
         [(''Conv1'', Convolution st pd, Some w1, Some b1),
          (''Relu1'', Relu, None, None),
          (''Pool1'', Pooling 2 2 2, None, None),
          (''Affine1'', Affine, Some w2, Some b2),
          (''Relu2'', Relu, None, None),
          (''Affine2'', Affine, Some w3, Some b3),
          (''Relu3'', Relu, None, None),
          (''Affine3'', Affine, Some w4, Some b4)]"
    by (simp add: s'_def static_def k pool_height_def pool_width_def pool_stride_def)
  have hp: "heap s' = heap s" by (simp add: s'_def)
  have "fst (predict ops s' x) = fst (forward_layers ops (heap s') (layers s') x)"
    by (simp add: predict_def case_prod_beta)
  then have pr: "fst (predict ops s' x) =
         forward_fn ops Affine (heap s w4) (heap s b4)
          (forward_fn ops Relu None None
           (forward_fn ops Affine (heap s w3) (heap s b3)
            (forward_fn ops Relu None None
             (forward_fn ops Affine (heap s w2) (heap s b2)
              (forward_fn ops (Pooling 2 2 2) None None
               (forward_fn ops Relu None None
                (forward_fn ops (Convolution st pd) (heap s w1) (heap s b1) x)))))))"
    unfolding forward_layers_fold st hp by (simp add: deref_def)
  have pp: "params s' = params s ++ map_of loaded"
    by (simp add: s'_def ps_def)
  show ?thesis
    by (intro exI [of _ s'] conjI) (fact lp hp pp st pr)+
qed

text \<open>
  C9 on the default network and eight arrays at the references 10 to 17.
\<close>

theorem load_params_rebinds_witness:
  "wired 1 0 unpickled_net \<and> distinct (map fst loaded_refs)
   \<and> map_of loaded_refs ''W1'' = Some 10 \<and> map_of loaded_refs ''b4'' = Some 17
   \<and> heap unpickled_net 10 = Some (Arr [Num 10])
   \<and> (\<exists>s'. load_params unpickled_net loaded_refs = Inr s'
        \<and> heap s' = heap unpickled_net
        \<and> params s' = params unpickled_net ++ map_of loaded_refs
        \<and> map static (layers s') =
         [(''Conv1'', Convolution 1 0, Some 10, Some 11),
          (''Relu1'', Relu, None, None),
          (''Pool1'', Pooling 2 2 2, None, None),
          (''Affine1'', Affine, Some 12, Some 13),
          (''Relu2'', Relu, None, None),
          (''Affine2'', Affine, Some 14, Some 15),
          (''Relu3'', Relu, None, None),
          (''Affine3'', Affine, Some 16, Some 17)])"
proof -
  have d: "distinct (map fst loaded_refs)" by (simp add: loaded_refs_def)
  have l: "map_of loaded_refs ''W1'' = Some 10" "map_of loaded_refs ''b1'' = Some 11"
      "map_of loaded_refs ''W2'' = Some 12" "map_of loaded_refs ''b2'' = Some 13"
      "map_of loaded_refs ''W3'' = Some 14" "map_of loaded_refs ''b3'' = Some 15"
      "map_of loaded_refs ''W4'' = Some 16" "map_of loaded_refs ''b4'' = Some 17"
    by (simp_all add: loaded_refs_def)
  have h: "heap unpickled_net 10 = Some (Arr [Num 10])"
    by (simp add: unpickled_net_def loaded_refs_def map_add_def)
  from load_params_rebinds [OF unpickled_net_wired d l, of demo_ops "Num 0"]
  obtain s' where c: "load_params unpickled_net loaded_refs = Inr s'
     \<and> heap s' = heap unpickled_net
     \<and> params s' = params unpickled_net ++ map_of loaded_refs
     \<and> map static (layers s') =
         [(''Conv1'', Convolution 1 0, Some 10, Some 11),
          (''Relu1'', Relu, None, None),
          (''Pool1'', Pooling 2 2 2, None, None),
          (''Affine1'', Affine, Some 12, Some 13),
          (''Relu2'', Relu, None, None),
          (''Affine2'', Affine, Some 14, Some 15),
          (''Relu3'', Relu, None, None),
          (''Affine3'', Affine, Some 16, Some 17)]
     \<and> fst (predict demo_ops s' (Num 0)) =
         forward_fn demo_ops Affine (heap unpickled_net 16) (heap unpickled_net 17)
          (forward_fn demo_ops Relu None None
           (forward_fn demo_ops Affine (heap unpickled_net 14) (heap unpickled_net 15)
            (forward_fn demo_ops Relu None None
             (forward_fn demo_ops Affine (heap unpickled_net 12) (heap unpickled_net 13)
              (forward_fn demo_ops (Pooling 2 2 2) None None
               (forward_fn demo_ops Relu None None
                (forward_fn demo_ops (Convolution 1 0) (heap unpickled_net 10)
                   (heap unpickled_net 11) (Num 0))))))))" ..
  have e: "\<exists>s'. load_params unpickled_net loaded_refs = Inr s'
        \<and> heap s' = heap unpickled_net
        \<and> params s' = params unpickled_net ++ map_of loaded_refs
        \<and> map static (layers s') =
         [(''Conv1'', Convolution 1 0, Some 10, Some 11),
          (''Relu1'', Relu, None, None),
          (''Pool1'', Pooling 2 2 2, None, None),
          (''Affine1'', Affine, Some 12, Some 13),
          (''Relu2'', Relu, None, None),
          (''Affine2'', Affine, Some 14, Some 15),
          (''Relu3'', Relu, None, None),
          (''Affine3'', Affine, Some 16, Some 17)]"
    by (intro exI [of _ s'] conjI)
      (rule c [THEN conjunct1], rule c [THEN conjunct2, THEN conjunct1],
       rule c [THEN conjunct2, THEN conjunct2, THEN conjunct1],
       rule c [THEN conjunct2, THEN conjunct2, THEN conjunct2, THEN conjunct1])
  show ?thesis
    by (intro conjI) (fact unpickled_net_wired d l(1) l(8) h e)+
qed

section \<open>The first update of Adam\<close>

lemma adam_one_other:
  "k \<noteq> key \<Longrightarrow> at_key (adam_one b1 b2 lr_t gs k pmv) key = at_key pmv key"
  by (cases pmv) (simp add: adam_one_def at_key_def split: option.splits)

lemma adam_one_at:
  "at_key pmv key = (Some p, Some mk, Some vk) \<Longrightarrow> gs key = Some g \<Longrightarrow>
   at_key (adam_one b1 b2 lr_t gs key pmv) key
     = (Some (descend lr_t p (moment1 b1 mk g) (moment2 b2 vk g)),
        Some (moment1 b1 mk g), Some (moment2 b2 vk g))"
  by (cases pmv) (simp add: adam_one_def at_key_def)

lemma adam_keys_other:
  "key \<notin> set keys \<Longrightarrow> at_key (adam_keys b1 b2 lr_t gs keys pmv) key = at_key pmv key"
proof (induction keys arbitrary: pmv)
  case Nil
  show ?case by simp
next
  case (Cons k keys)
  then have k: "k \<noteq> key" and n: "key \<notin> set keys" by auto
  have "at_key (adam_keys b1 b2 lr_t gs (k # keys) pmv) key
      = at_key (adam_one b1 b2 lr_t gs k pmv) key"
    unfolding adam_keys.simps by (rule Cons.IH [OF n])
  also have "\<dots> = at_key pmv key" by (rule adam_one_other [OF k])
  finally show ?case .
qed

lemma adam_keys_at:
  assumes "distinct keys" and "key \<in> set keys"
    and "at_key pmv key = (Some p, Some mk, Some vk)" and "gs key = Some g"
  shows "at_key (adam_keys b1 b2 lr_t gs keys pmv) key
     = (Some (descend lr_t p (moment1 b1 mk g) (moment2 b2 vk g)),
        Some (moment1 b1 mk g), Some (moment2 b2 vk g))"
  using assms(1-3)
proof (induction keys arbitrary: pmv)
  case Nil
  then show ?case by simp
next
  case (Cons k keys)
  show ?case
  proof (cases "k = key")
    case True
    with Cons.prems have n: "key \<notin> set keys" by simp
    have "at_key (adam_keys b1 b2 lr_t gs (k # keys) pmv) key
        = at_key (adam_one b1 b2 lr_t gs key pmv) key"
      unfolding adam_keys.simps True by (rule adam_keys_other [OF n])
    also have "\<dots> = (Some (descend lr_t p (moment1 b1 mk g) (moment2 b2 vk g)),
        Some (moment1 b1 mk g), Some (moment2 b2 vk g))"
      by (rule adam_one_at [where gs = gs and key = key, OF Cons.prems(3) assms(4)])
    finally show ?thesis .
  next
    case False
    with Cons.prems have d: "distinct keys" and i: "key \<in> set keys" by auto
    have a: "at_key (adam_one b1 b2 lr_t gs k pmv) key = (Some p, Some mk, Some vk)"
      using adam_one_other [OF False, of b1 b2 lr_t gs pmv] Cons.prems(3) by simp
    show ?thesis
      unfolding adam_keys.simps by (rule Cons.IH [OF d i a])
  qed
qed

lemma adam_first_params:
  assumes "distinct keys" and "key \<in> set keys" and "ps key = Some p" and "gs key = Some g"
  shows "snd (adam_update (Adam lr) keys ps gs) key
       = Some (descend (lr * sqrt (1 / 1000) / (1 / 10)) p
                 (moment1 (9 / 10) (zeros_like p) g) (moment2 (999 / 1000) (zeros_like p) g))"
proof -
  let ?z = "\<lambda>key. map_option zeros_like (ps key)"
  have z: "at_key (ps, ?z, ?z) key = (Some p, Some (zeros_like p), Some (zeros_like p))"
    by (simp add: at_key_def assms(3))
  have a: "at_key (adam_keys (9 / 10) (999 / 1000) (lr * sqrt (1 / 1000) / (1 / 10)) gs keys
              (ps, ?z, ?z)) key
     = (Some (descend (lr * sqrt (1 / 1000) / (1 / 10)) p
                 (moment1 (9 / 10) (zeros_like p) g) (moment2 (999 / 1000) (zeros_like p) g)),
        Some (moment1 (9 / 10) (zeros_like p) g), Some (moment2 (999 / 1000) (zeros_like p) g))"
    by (rule adam_keys_at [where gs = gs and key = key, OF assms(1,2) z assms(4)])
  have u: "snd (adam_update (Adam lr) keys ps gs)
      = fst (adam_keys (9 / 10) (999 / 1000) (lr * sqrt (1 / 1000) / (1 / 10)) gs keys
              (ps, ?z, ?z))"
    by (simp add: adam_update_def Adam_def case_prod_beta Let_def)
  show ?thesis
    unfolding u using a by (simp add: at_key_def)
qed

lemma first_moments:
  assumes "length g = length p" and "i < length p"
  shows "length (moment1 (9 / 10) (zeros_like p) g) = length p"
    and "length (moment2 (999 / 1000) (zeros_like p) g) = length p"
    and "moment1 (9 / 10) (zeros_like p) g ! i = g ! i / 10"
    and "moment2 (999 / 1000) (zeros_like p) g ! i = (g ! i)\<^sup>2 / 1000"
  using assms by (simp_all add: moment1_def moment2_def zeros_like_def)

lemma descend_nth:
  assumes "length m = length p" and "length v = length p" and "i < length p"
  shows "length (descend lr_t p m v) = length p"
    and "descend lr_t p m v ! i = p ! i - lr_t * (m ! i) / (sqrt (v ! i) + adam_eps)"
  using assms by (simp_all add: descend_def)

lemma sqrt_thousandth:
  "0 < sqrt (1 / 1000 :: real)" "sqrt (1 / 1000 :: real) < 1 / 30"
proof -
  show "0 < sqrt (1 / 1000 :: real)" by simp
  have e: "sqrt (1 / 900 :: real) = 1 / 30"
    by (rule real_sqrt_unique) (simp_all add: power2_eq_square)
  have "sqrt (1 / 1000 :: real) < sqrt (1 / 900)"
    by (rule real_sqrt_less_mono) simp
  then show "sqrt (1 / 1000 :: real) < 1 / 30" unfolding e .
qed

lemma adam_first_delta:
  assumes "distinct keys" and "key \<in> set keys" and "ps key = Some p" and "gs key = Some g"
    and "length g = length p" and "i < length p"
  shows "\<exists>p'. snd (adam_update (Adam lr) keys ps gs) key = Some p' \<and> length p' = length p
     \<and> p' ! i - p ! i
        = - lr * sqrt (1 / 1000) * (g ! i) / (sqrt (1 / 1000) * \<bar>g ! i\<bar> + adam_eps)"
proof -
  let ?m = "moment1 (9 / 10) (zeros_like p) g"
  let ?v = "moment2 (999 / 1000) (zeros_like p) g"
  let ?p' = "descend (lr * sqrt (1 / 1000) / (1 / 10)) p ?m ?v"
  note fm = first_moments [OF assms(5,6)]
  note dn = descend_nth [OF fm(1,2) assms(6), of "lr * sqrt (1 / 1000) / (1 / 10)"]
  have sq: "sqrt ((g ! i)\<^sup>2 / 1000) = sqrt (1 / 1000) * \<bar>g ! i\<bar>"
  proof -
    have "(g ! i)\<^sup>2 / 1000 = (1 / 1000) * (g ! i)\<^sup>2" by simp
    then have "sqrt ((g ! i)\<^sup>2 / 1000) = sqrt (1 / 1000) * sqrt ((g ! i)\<^sup>2)"
      by (simp only: real_sqrt_mult)
    then show ?thesis by simp
  qed
  have "?p' ! i - p ! i
      = - (lr * sqrt (1 / 1000) / (1 / 10)) * (g ! i / 10) / (sqrt (1 / 1000) * \<bar>g ! i\<bar> + adam_eps)"
    unfolding dn(2) fm(3,4) sq by simp
  also have "\<dots> = - lr * sqrt (1 / 1000) * (g ! i) / (sqrt (1 / 1000) * \<bar>g ! i\<bar> + adam_eps)"
    by simp
  finally have d: "?p' ! i - p ! i
      = - lr * sqrt (1 / 1000) * (g ! i) / (sqrt (1 / 1000) * \<bar>g ! i\<bar> + adam_eps)" .
  show ?thesis
    by (intro exI [of _ ?p'] conjI)
      (rule adam_first_params [where gs = gs and key = key and ps = ps, OF assms(1-4)], rule dn(1), rule d)
qed

text \<open>
  C6, as stated, fails.  With learning rate 1 and gradient 1, the first update changes a
  parameter by a number between \<open>-1\<close> and 0, whereas
  \<open>- lr * sign(g) * (1 - \<beta>1) / \<surd>(1 - \<beta>2)\<close> is below \<open>-3\<close>: the factor
  \<open>(1 - \<beta>1) / \<surd>(1 - \<beta>2)\<close> of \<open>m / (\<surd>v + \<epsilon>)\<close> is cancelled by the factor
  \<open>\<surd>(1 - \<beta>2) / (1 - \<beta>1)\<close> of \<open>lr_t\<close>.
\<close>

theorem adam_claimed_step_counterexample:
  "(case snd (adam_update (Adam 1) [''W1''] one_param one_grad) ''W1'' of
      None \<Rightarrow> False
    | Some p' \<Rightarrow> - 1 < p' ! 0 - 0 \<and> p' ! 0 - 0 < 0)
   \<and> claimed_first_step 1 1 < - 3"
proof -
  have h: "distinct [''W1'']" "''W1'' \<in> set [''W1'']" "one_param ''W1'' = Some [0]"
    "one_grad ''W1'' = Some [1]" "length [1 :: real] = length [0 :: real]"
    "(0 :: nat) < length [0 :: real]"
    by (simp_all add: one_param_def one_grad_def)
  define s where "s = sqrt (1 / 1000 :: real)"
  have s: "0 < s" "s < 1 / 30" unfolding s_def by (rule sqrt_thousandth)+
  have e: "0 < adam_eps" by (simp add: adam_eps_def)
  from adam_first_delta [where gs = one_grad and key = "''W1''" and ps = one_param
      and lr = 1 and i = 0, OF h]
  obtain p' where p: "snd (adam_update (Adam 1) [''W1''] one_param one_grad) ''W1'' = Some p'"
    and d: "p' ! 0 - [0] ! 0
        = - 1 * sqrt (1 / 1000) * ([1] ! 0) / (sqrt (1 / 1000) * \<bar>[1] ! 0\<bar> + adam_eps)"
    by blast
  from d have d': "p' ! 0 - 0 = - (s / (s + adam_eps))" by (simp add: s_def)
  have "s / (s + adam_eps) < 1" using s e by simp
  moreover have "0 < s / (s + adam_eps)" using s e by (simp add: add_pos_pos)
  ultimately have r: "- 1 < p' ! 0 - 0 \<and> p' ! 0 - 0 < 0" unfolding d' by simp
  have "3 * s < 1 / 10" using s by simp
  then have "3 < (1 / 10) / s" using s by (simp add: pos_less_divide_eq)
  then have c: "claimed_first_step 1 1 < - 3"
    by (simp add: claimed_first_step_def s_def)
  show ?thesis using r c by (simp add: p)
qed

text \<open>
  C6, amended.  Starting from zero moments and step 0, one update with the gradient
  \<open>g\<close> changes a parameter entry by
  \<open>- lr * \<surd>(1 - \<beta>2) * g / (\<surd>(1 - \<beta>2) * |g| + \<epsilon>)\<close>, which is \<open>- lr * sign(g)\<close> up to
  \<open>|lr| * \<epsilon> / (\<surd>(1 - \<beta>2) * |g| + \<epsilon>)\<close> for \<open>g \<noteq> 0\<close>, and 0 for \<open>g = 0\<close>.
\<close>

theorem adam_first_step:
  assumes "distinct keys" and "key \<in> set keys" and "ps key = Some p" and "gs key = Some g"
    and "length g = length p" and "i < length p"
  shows "\<exists>p'. snd (adam_update (Adam lr) keys ps gs) key = Some p' \<and> length p' = length p
     \<and> p' ! i - p ! i
        = - lr * sqrt (1 / 1000) * (g ! i) / (sqrt (1 / 1000) * \<bar>g ! i\<bar> + adam_eps)
     \<and> \<bar>(p' ! i - p ! i) - (- lr * sgn (g ! i))\<bar>
        = \<bar>lr\<bar> * (if g ! i = 0 then 0 else adam_eps / (sqrt (1 / 1000) * \<bar>g ! i\<bar> + adam_eps))"
proof -
  from adam_first_delta [where gs = gs and key = key and ps = ps and lr = lr, OF assms]
  obtain p' where
    p': "snd (adam_update (Adam lr) keys ps gs) key = Some p'" "length p' = length p"
    and d: "p' ! i - p ! i
        = - lr * sqrt (1 / 1000) * (g ! i) / (sqrt (1 / 1000) * \<bar>g ! i\<bar> + adam_eps)"
    by blast
  define s where "s = sqrt (1 / 1000 :: real)"
  define x where "x = g ! i"
  have s: "0 < s" unfolding s_def by simp
  have e: "0 < adam_eps" by (simp add: adam_eps_def)
  have a: "\<bar>(p' ! i - p ! i) - (- lr * sgn x)\<bar>
        = \<bar>lr\<bar> * (if x = 0 then 0 else adam_eps / (s * \<bar>x\<bar> + adam_eps))"
  proof (cases "x = 0")
    case True
    then show ?thesis using d by (simp add: x_def)
  next
    case False
    then have ax: "0 < \<bar>x\<bar>" by simp
    have den: "0 < s * \<bar>x\<bar> + adam_eps" using s e ax by (simp add: add_pos_pos)
    have xs: "x = sgn x * \<bar>x\<bar>" by (simp add: sgn_mult_abs [symmetric])
    have "- lr * s * x / (s * \<bar>x\<bar> + adam_eps) + lr * sgn x
        = lr * sgn x * (adam_eps / (s * \<bar>x\<bar> + adam_eps))"
    proof -
      have "- lr * s * x / (s * \<bar>x\<bar> + adam_eps) + lr * sgn x
          = (- lr * s * x + lr * sgn x * (s * \<bar>x\<bar> + adam_eps)) / (s * \<bar>x\<bar> + adam_eps)"
        using den by (simp add: field_simps)
      also have "- lr * s * x + lr * sgn x * (s * \<bar>x\<bar> + adam_eps) = lr * sgn x * adam_eps"
      proof -
        have "lr * sgn x * (s * \<bar>x\<bar>) = lr * s * (sgn x * \<bar>x\<bar>)" by simp
        also have "\<dots> = lr * s * x" using xs by simp
        finally show ?thesis by (simp add: distrib_left)
      qed
      finally show ?thesis by simp
    qed
    then have "\<bar>(p' ! i - p ! i) - (- lr * sgn x)\<bar>
        = \<bar>lr * sgn x * (adam_eps / (s * \<bar>x\<bar> + adam_eps))\<bar>"
      using d by (simp add: x_def s_def)
    also have "\<dots> = \<bar>lr\<bar> * (adam_eps / (s * \<bar>x\<bar> + adam_eps))"
      using False den e by (simp add: abs_mult abs_sgn_eq)
    finally show ?thesis using False by simp
  qed
  show ?thesis
    by (intro exI [of _ p'] conjI) (rule p'(1), rule p'(2), rule d, rule a [unfolded x_def s_def])
qed

text \<open>The amended C6 with the learning rate 0.001 of the script and gradient 1.\<close>

theorem adam_first_step_witness:
  "distinct [''W1''] \<and> ''W1'' \<in> set [''W1''] \<and> one_param ''W1'' = Some [0]
   \<and> one_grad ''W1'' = Some [1] \<and> length [1 :: real] = length [0 :: real]
   \<and> (0 :: nat) < length [0 :: real]
   \<and> (\<exists>p'. snd (adam_update (Adam (1 / 1000)) [''W1''] one_param one_grad) ''W1'' = Some p'
          \<and> p' ! 0 = - (1 / 1000) * sqrt (1 / 1000) / (sqrt (1 / 1000) + adam_eps)
          \<and> \<bar>p' ! 0 + 1 / 1000\<bar> = (1 / 1000) * (adam_eps / (sqrt (1 / 1000) + adam_eps)))"
proof -
  have h: "distinct [''W1'']" "''W1'' \<in> set [''W1'']" "one_param ''W1'' = Some [0]"
    "one_grad ''W1'' = Some [1]" "length [1 :: real] = length [0 :: real]"
    "(0 :: nat) < length [0 :: real]"
    by (simp_all add: one_param_def one_grad_def)
  from adam_first_step [where gs = one_grad and key = "''W1''" and ps = one_param
      and lr = "1 / 1000" and i = 0, OF h]
  obtain p' where p: "snd (adam_update (Adam (1 / 1000)) [''W1''] one_param one_grad) ''W1''
        = Some p'"
    and d: "p' ! 0 - [0] ! 0
        = - (1 / 1000) * sqrt (1 / 1000) * ([1] ! 0) / (sqrt (1 / 1000) * \<bar>[1] ! 0\<bar> + adam_eps)"
    and a: "\<bar>(p' ! 0 - [0] ! 0) - (- (1 / 1000) * sgn ([1 :: real] ! 0))\<bar>
        = \<bar>1 / 1000 :: real\<bar> * (if [1 :: real] ! 0 = 0 then 0
             else adam_eps / (sqrt (1 / 1000) * \<bar>[1] ! 0\<bar> + adam_eps))"
    by blast
  from d have d': "p' ! 0 = - (1 / 1000) * sqrt (1 / 1000) / (sqrt (1 / 1000) + adam_eps)"
    by simp
  from a have a': "\<bar>p' ! 0 + 1 / 1000\<bar> = (1 / 1000) * (adam_eps / (sqrt (1 / 1000) + adam_eps))"
    by simp
  have "\<exists>p'. snd (adam_update (Adam (1 / 1000)) [''W1''] one_param one_grad) ''W1'' = Some p'
          \<and> p' ! 0 = - (1 / 1000) * sqrt (1 / 1000) / (sqrt (1 / 1000) + adam_eps)
          \<and> \<bar>p' ! 0 + 1 / 1000\<bar> = (1 / 1000) * (adam_eps / (sqrt (1 / 1000) + adam_eps))"
    by (intro exI [of _ p'] conjI) (rule p, rule d', rule a')
  with h show ?thesis by blast
qed

end
